theory Spec2Isabelle
  imports Complex_Main "HOL-Library.Sublist"
begin

section \<open>Data model\<close>

text \<open>
  The enums and interfaces of \<^verbatim>\<open>types.ts\<close> as the sources use them. Fields that share a
  name between interfaces carry a suffix (\<open>id_msg\<close>, \<open>id_imp\<close>, \<open>id_log\<close>). The fields of
  \<^verbatim>\<open>Importer\<close> that the messaging code never touches (name, companyName, leadScore, ...)
  travel in the record's extension: every function below works on
  \<open>'a Importer_scheme\<close>, and an object spread \<^verbatim>\<open>{...i, f: v}\<close> is a record update.
\<close>

datatype Channel = WHATSAPP | WECHAT | EMAIL

datatype MessageStatus = SENDING | SENT | DELIVERED | READ | FAILED

datatype Sender = agent | importer | system

datatype LeadStatus = PENDING | CONTACTED | ENGAGED | OtherLeadStatus string

record Message =
  id_msg :: string
  content :: string
  sender :: Sender
  timestamp_msg :: nat
  channel :: Channel
  status_msg :: "MessageStatus option"
  feedback :: "string option"

record ActivityLog =
  id_log :: string
  timestamp_log :: nat
  type_log :: string
  description :: string

record Importer =
  id_imp :: string
  contactDetail :: string
  status_imp :: LeadStatus
  chatHistory :: "Message list"
  lastContacted :: "nat option"
  activityLog :: "ActivityLog list"

subsection \<open>Numbers in template strings\<close>

text \<open>\<^verbatim>\<open>Date.now().toString()\<close> and \<^verbatim>\<open>`wh-${Date.now()}`\<close>: the decimal numeral of a
  millisecond count.\<close>

definition digit :: "nat \<Rightarrow> char" where
  "digit d = ''0123456789'' ! d"

function toString :: "nat \<Rightarrow> string" where
  "toString n = (if n < 10 then [digit n] else toString (n div 10) @ [digit (n mod 10)])"
  by pat_completeness auto
termination
  by (relation "measure (\<lambda>n. n)") auto

declare toString.simps [simp del]

subsection \<open>Strings\<close>

text \<open>\<^verbatim>\<open>a.includes(b)\<close> on two strings: \<open>b\<close> occurs in \<open>a\<close> as a contiguous run.\<close>

fun includes_str :: "string \<Rightarrow> string \<Rightarrow> bool" where
  "includes_str [] b = (b = [])"
| "includes_str (x # xs) b = (prefix b (x # xs) \<or> includes_str xs b)"

section \<open>Provider payloads\<close>

text \<open>
  The webhook body as \<^verbatim>\<open>express.json()\<close> hands it over. A property read yields
  \<open>None\<close> for JavaScript's \<^verbatim>\<open>undefined\<close>. The handler reads only the names
  entry, changes, value, messages, text, body, from, message, Content and FromUserName,
  none of which is a built-in member of a string, number, boolean or array, so a read on
  those is \<^verbatim>\<open>undefined\<close>; an object is its list of members, first binding of a key.
\<close>

datatype json =
    JNull
  | JBool bool
  | JNum rat
  | JStr string
  | JArr "json list"
  | JObj "(string \<times> json) list"

fun get_prop :: "string \<Rightarrow> json \<Rightarrow> json option" where
  "get_prop k (JObj kvs) = map_of kvs k"
| "get_prop k _ = None"

text \<open>\<^verbatim>\<open>x[0]\<close>: the first element of an array, the first character of a string, the
  member named 0 of an object.\<close>

fun idx0 :: "json \<Rightarrow> json option" where
  "idx0 (JArr xs) = (case xs of [] \<Rightarrow> None | x # _ \<Rightarrow> Some x)"
| "idx0 (JStr s) = (case s of [] \<Rightarrow> None | c # _ \<Rightarrow> Some (JStr [c]))"
| "idx0 (JObj kvs) = map_of kvs ''0''"
| "idx0 _ = None"

text \<open>Optional chaining \<^verbatim>\<open>x?.k\<close> and \<^verbatim>\<open>x?.[0]\<close>: \<^verbatim>\<open>undefined\<close> when \<open>x\<close> is
  \<^verbatim>\<open>null\<close> or \<^verbatim>\<open>undefined\<close>.\<close>

fun opt_prop :: "string \<Rightarrow> json option \<Rightarrow> json option" where
  "opt_prop k None = None"
| "opt_prop k (Some JNull) = None"
| "opt_prop k (Some x) = get_prop k x"

fun opt_idx0 :: "json option \<Rightarrow> json option" where
  "opt_idx0 None = None"
| "opt_idx0 (Some JNull) = None"
| "opt_idx0 (Some x) = idx0 x"

fun truthy :: "json option \<Rightarrow> bool" where
  "truthy None = False"
| "truthy (Some JNull) = False"
| "truthy (Some (JBool b)) = b"
| "truthy (Some (JNum n)) = (n \<noteq> 0)"
| "truthy (Some (JStr s)) = (s \<noteq> [])"
| "truthy (Some (JArr _)) = True"
| "truthy (Some (JObj _)) = True"

text \<open>
  \<open>TypeError\<close>: a plain member read on \<^verbatim>\<open>null\<close>. \<open>NotAString\<close>: \<^verbatim>\<open>content\<close> and
  \<^verbatim>\<open>contact\<close> are declared by \<^verbatim>\<open>let content = ''\<close>, and \<^verbatim>\<open>Message.content\<close> and
  \<^verbatim>\<open>contactDetail\<close> are strings; a payload that puts a truthy non-string where a string
  is used leaves the typed program, and the model answers \<open>NotAString\<close> rather than a store.
\<close>

datatype js_error = TypeError | NotAString

fun read_member :: "json \<Rightarrow> string \<Rightarrow> js_error + json option" where
  "read_member JNull k = Inl TypeError"
| "read_member x k = Inr (get_prop k x)"

section \<open>Webhook correlation (App, \<^verbatim>\<open>onWebhookPayload\<close>)\<close>

text \<open>The WhatsApp message node \<^verbatim>\<open>payload?.entry?.[0]?.changes?.[0]?.value?.messages?.[0]\<close>.\<close>

definition whatsapp_msg :: "json \<Rightarrow> json option" where
  "whatsapp_msg payload =
     opt_idx0 (opt_prop ''messages'' (opt_prop ''value'' (opt_idx0 (opt_prop ''changes''
       (opt_idx0 (opt_prop ''entry'' (Some payload)))))))"

text \<open>Lines 449 to 464: the pair \<open>(content, contact)\<close> after the channel branches; both
  start as the empty string.\<close>

definition extractFields :: "string \<Rightarrow> json \<Rightarrow> js_error + (json option \<times> json option)" where
  "extractFields channel' payload =
     (if channel' = ''WhatsApp'' then
        (let msg = whatsapp_msg payload in
         if truthy msg then
           (let body = opt_prop ''body'' (opt_prop ''text'' msg) in
            Inr (if truthy body then body else Some (JStr ''[Media]''),
                 opt_prop ''from'' msg))
         else
           (case read_member payload ''message'' of
              Inl e \<Rightarrow> Inl e
            | Inr m \<Rightarrow>
                if truthy m then Inr (m, get_prop ''from'' payload)
                else Inr (Some (JStr []), Some (JStr []))))
      else if channel' = ''WeChat'' then
        (case read_member payload ''Content'' of
           Inl e \<Rightarrow> Inl e
         | Inr c \<Rightarrow> Inr (c, get_prop ''FromUserName'' payload))
      else Inr (Some (JStr []), Some (JStr [])))"

text \<open>The predicate of \<^verbatim>\<open>prev.find\<close> on line 468.\<close>

definition matches :: "string \<Rightarrow> 'a Importer_scheme \<Rightarrow> bool" where
  "matches contact i \<longleftrightarrow> includes_str (contactDetail i) contact \<or> includes_str contact (contactDetail i)"

definition webhookMessage :: "string \<Rightarrow> string \<Rightarrow> nat option \<Rightarrow> nat \<Rightarrow> Message" where
  "webhookMessage channel' content' timestamp now =
     \<lparr> id_msg = ''wh-'' @ toString now,
       content = content',
       sender = importer,
       timestamp_msg = (case timestamp of None \<Rightarrow> now | Some t \<Rightarrow> if t = 0 then now else t),
       channel = (if channel' = ''WhatsApp'' then WHATSAPP else WECHAT),
       status_msg = Some DELIVERED,
       feedback = None \<rparr>"

definition webhookLog :: "string \<Rightarrow> nat \<Rightarrow> ActivityLog" where
  "webhookLog channel' now =
     \<lparr> id_log = ''log-'' @ toString now,
       timestamp_log = now,
       type_log = ''system'',
       description = ''Incoming '' @ channel' @ '' message'' \<rparr>"

text \<open>
  The updater handed to \<^verbatim>\<open>setImporters\<close> (lines 467 to 493); \<open>withInbound\<close> is the
  object it builds for a matched lead (lines 482 to 488). It returns the argument of
  its call to \<^verbatim>\<open>CampaignService.stopEnrollment\<close>, if it makes one, and the next store.
  \<open>now\<close> is the reading of \<^verbatim>\<open>Date.now()\<close>; the reads of one run are taken in the same
  millisecond.
\<close>

definition withInbound ::
  "string \<Rightarrow> string \<Rightarrow> nat option \<Rightarrow> nat \<Rightarrow> 'a Importer_scheme \<Rightarrow> 'a Importer_scheme" where
  "withInbound channel' content' timestamp now i =
     i\<lparr> status_imp := ENGAGED,
        chatHistory := chatHistory i @ [webhookMessage channel' content' timestamp now],
        lastContacted := Some now,
        activityLog := activityLog i @ [webhookLog channel' now] \<rparr>"

definition webhookUpdate ::
  "string \<Rightarrow> string \<Rightarrow> string \<Rightarrow> nat option \<Rightarrow> nat \<Rightarrow> 'a Importer_scheme list
     \<Rightarrow> string option \<times> 'a Importer_scheme list" where
  "webhookUpdate channel' content' contact timestamp now prev =
     (case find (matches contact) prev of
        Some existing \<Rightarrow>
          (Some (id_imp existing),
           map (\<lambda>i. if id_imp i = id_imp existing
                     then withInbound channel' content' timestamp now i else i) prev)
      | None \<Rightarrow> (None, prev))"

text \<open>
  The handler itself: extraction, the guard \<^verbatim>\<open>if (content && contact)\<close>, the update.
  A truthy \<open>contact\<close> has to be a string for \<^verbatim>\<open>includes\<close> to be the substring test; a
  truthy \<open>content\<close> has to be one only when a lead matches and the message is stored.
\<close>

definition onWebhookPayload ::
  "string \<Rightarrow> json \<Rightarrow> nat option \<Rightarrow> nat \<Rightarrow> 'a Importer_scheme list
     \<Rightarrow> js_error + (string option \<times> 'a Importer_scheme list)" where
  "onWebhookPayload channel' payload timestamp now prev =
     (case extractFields channel' payload of
        Inl e \<Rightarrow> Inl e
      | Inr (content', contact) \<Rightarrow>
          if truthy content' \<and> truthy contact then
            (case contact of
               Some (JStr k) \<Rightarrow>
                 (case content' of
                    Some (JStr c) \<Rightarrow> Inr (webhookUpdate channel' c k timestamp now prev)
                  | _ \<Rightarrow> if find (matches k) prev = None then Inr (None, prev)
                         else Inl NotAString)
             | _ \<Rightarrow> Inl NotAString)
          else Inr (None, prev))"

section \<open>Status updates applied to the store (App, lines 521 to 529)\<close>

definition statusUpdateHandler ::
  "string \<Rightarrow> MessageStatus \<Rightarrow> 'a Importer_scheme list \<Rightarrow> 'a Importer_scheme list" where
  "statusUpdateHandler messageId status prev =
     map (\<lambda>imp. case find (\<lambda>m. id_msg m = messageId) (chatHistory imp) of
                  Some msgExists \<Rightarrow>
                    imp\<lparr> chatHistory :=
                           map (\<lambda>m. if id_msg m = messageId then m\<lparr> status_msg := Some status \<rparr> else m)
                               (chatHistory imp) \<rparr>
                | None \<Rightarrow> imp) prev"

section \<open>The messaging service (\<^verbatim>\<open>services/messagingService.ts\<close>)\<close>

text \<open>
  The three module-level listener slots, the timers armed by \<^verbatim>\<open>setTimeout\<close> and not yet
  fired, and the history of emissions. A handler is a closure; the model names it by a
  number. Every statement \<^verbatim>\<open>if (listener) listener(args)\<close> that is reached adds one entry
  to \<open>emitted\<close>: \<open>(Some h, e)\<close> when handler \<open>h\<close> was called with \<open>e\<close>, \<open>(None, e)\<close> when
  the slot was empty and the event was dropped.
\<close>

type_synonym handler = nat

datatype event =
    StatusUpdate string MessageStatus
  | TypingStatus string bool
  | IncomingMessage "string option" string string Channel

datatype task =
    Delivery string
  | ReadReceipt string
  | Reply string string Channel

record service =
  incomingListener :: "handler option"
  statusListener :: "handler option"
  typingListener :: "handler option"
  timers :: "(rat \<times> task) list"
  emitted :: "(handler option \<times> event) list"

record send_result =
  success :: bool
  error :: "string option"

definition onIncomingMessage :: "handler \<Rightarrow> service \<Rightarrow> service" where
  "onIncomingMessage h s = s\<lparr> incomingListener := Some h \<rparr>"

definition onMessageStatusUpdate :: "handler \<Rightarrow> service \<Rightarrow> service" where
  "onMessageStatusUpdate h s = s\<lparr> statusListener := Some h \<rparr>"

definition onTypingStatus :: "handler \<Rightarrow> service \<Rightarrow> service" where
  "onTypingStatus h s = s\<lparr> typingListener := Some h \<rparr>"

definition emitStatus :: "string \<Rightarrow> MessageStatus \<Rightarrow> service \<Rightarrow> service" where
  "emitStatus messageId status s =
     s\<lparr> emitted := emitted s @ [(statusListener s, StatusUpdate messageId status)] \<rparr>"

definition emitTyping :: "string \<Rightarrow> bool \<Rightarrow> service \<Rightarrow> service" where
  "emitTyping importerId isTyping s =
     s\<lparr> emitted := emitted s @ [(typingListener s, TypingStatus importerId isTyping)] \<rparr>"

definition emitIncoming :: "string option \<Rightarrow> string \<Rightarrow> string \<Rightarrow> Channel \<Rightarrow> service \<Rightarrow> service" where
  "emitIncoming importerId contact content' channel' s =
     s\<lparr> emitted := emitted s @ [(incomingListener s, IncomingMessage importerId contact content' channel')] \<rparr>"

definition setTimeout :: "task \<Rightarrow> rat \<Rightarrow> service \<Rightarrow> service" where
  "setTimeout t delay s = s\<lparr> timers := timers s @ [(delay, t)] \<rparr>"

definition latency :: "Channel \<Rightarrow> rat" where
  "latency channel' = (if channel' = EMAIL then 1500 else 600)"

definition deliveryDelay :: "Channel \<Rightarrow> rat" where
  "deliveryDelay channel' = (if channel' = EMAIL then 3000 else 1000)"

text \<open>
  \<^verbatim>\<open>sendMessage\<close> from the point where its \<^verbatim>\<open>await\<close> on the latency timer resumes (line 32):
  before that the function only logs. \<open>r\<close> is the value of the first \<^verbatim>\<open>Math.random()\<close>,
  a number in \<open>[0, 1)\<close>. The function returns the resolved promise value and the next
  state of the module.
\<close>

definition sendMessage ::
  "string \<Rightarrow> string \<Rightarrow> string \<Rightarrow> Channel \<Rightarrow> rat \<Rightarrow> service \<Rightarrow> send_result \<times> service" where
  "sendMessage messageId to' content' channel' r s =
     (if r > 98 / 100 then (\<lparr> success = False, error = Some ''Gateway Timeout'' \<rparr>, s)
      else (\<lparr> success = True, error = None \<rparr>,
            setTimeout (Delivery messageId) (deliveryDelay channel') (emitStatus messageId SENT s)))"

text \<open>
  The callbacks handed to \<^verbatim>\<open>setTimeout\<close>. \<open>r2\<close> and \<open>r3\<close> are the values of the two
  \<^verbatim>\<open>Math.random()\<close> calls of the delivery callback (lines 48 and 51).
\<close>

fun runTask :: "task \<Rightarrow> rat \<Rightarrow> rat \<Rightarrow> service \<Rightarrow> service" where
  "runTask (Delivery messageId) r2 r3 s =
     (let s1 = emitStatus messageId DELIVERED s in
      if r2 > 3 / 10 then setTimeout (ReadReceipt messageId) (2000 + r3 * 4000) s1 else s1)"
| "runTask (ReadReceipt messageId) r2 r3 s = emitStatus messageId READ s"
| "runTask (Reply importerId content' channel') r2 r3 s =
     emitIncoming (Some importerId) ''unknown-contact'' content' channel'
       (emitTyping importerId False s)"

text \<open>
  The \<open>k\<close>-th armed timer fires: it leaves the list and its callback runs. The delays are
  kept with the timers, but any armed timer may fire next: the model admits every order
  in which the event loop can run the callbacks.
\<close>

definition fire :: "nat \<Rightarrow> rat \<Rightarrow> rat \<Rightarrow> service \<Rightarrow> service" where
  "fire k r2 r3 s =
     (if k < length (timers s)
      then runTask (snd (timers s ! k)) r2 r3
             (s\<lparr> timers := take k (timers s) @ drop (Suc k) (timers s) \<rparr>)
      else s)"

definition receiveMockReply :: "string \<Rightarrow> string \<Rightarrow> Channel \<Rightarrow> service \<Rightarrow> service" where
  "receiveMockReply importerId content' channel' s =
     setTimeout (Reply importerId content' channel')
       (of_nat (min (1000 + length content' * 30) 4000))
       (emitTyping importerId True s)"

text \<open>What the rest of the program can do to the module, one call or timer at a time.\<close>

datatype action =
    OnIncomingMessage handler
  | OnMessageStatusUpdate handler
  | OnTypingStatus handler
  | SendMessage string string string Channel rat
  | ReceiveMockReply string string Channel
  | Fire nat rat rat

fun step :: "action \<Rightarrow> service \<Rightarrow> service" where
  "step (OnIncomingMessage h) s = onIncomingMessage h s"
| "step (OnMessageStatusUpdate h) s = onMessageStatusUpdate h s"
| "step (OnTypingStatus h) s = onTypingStatus h s"
| "step (SendMessage messageId to' content' channel' r) s =
     snd (sendMessage messageId to' content' channel' r s)"
| "step (ReceiveMockReply importerId content' channel') s =
     receiveMockReply importerId content' channel' s"
| "step (Fire k r2 r3) s = fire k r2 r3 s"

fun run :: "action list \<Rightarrow> service \<Rightarrow> service" where
  "run [] s = s"
| "run (a # as) s = run as (step a s)"

text \<open>The statuses emitted for one message id, in order; and those that reached a handler.\<close>

fun statusesOf :: "string \<Rightarrow> (handler option \<times> event) list \<Rightarrow> MessageStatus list" where
  "statusesOf m [] = []"
| "statusesOf m ((h, StatusUpdate m' st) # es) =
     (if m' = m then st # statusesOf m es else statusesOf m es)"
| "statusesOf m (_ # es) = statusesOf m es"

definition received :: "(handler option \<times> event) list \<Rightarrow> (handler option \<times> event) list" where
  "received es = filter (\<lambda>e. fst e \<noteq> None) es"

fun sendsOf :: "string \<Rightarrow> action list \<Rightarrow> nat" where
  "sendsOf m [] = 0"
| "sendsOf m (SendMessage m' to' content' channel' r # as) =
     (if m' = m then Suc (sendsOf m as) else sendsOf m as)"
| "sendsOf m (_ # as) = sendsOf m as"

fun timersOf :: "string \<Rightarrow> (rat \<times> task) list \<Rightarrow> task list" where
  "timersOf m [] = []"
| "timersOf m ((d, Delivery m') # ts) =
     (if m' = m then Delivery m' # timersOf m ts else timersOf m ts)"
| "timersOf m ((d, ReadReceipt m') # ts) =
     (if m' = m then ReadReceipt m' # timersOf m ts else timersOf m ts)"
| "timersOf m (_ # ts) = timersOf m ts"

text \<open>The module as loaded: no listener registered, no timer armed, nothing emitted.\<close>

definition idle :: service where
  "idle = \<lparr> incomingListener = None, statusListener = None, typingListener = None,
            timers = [], emitted = [] \<rparr>"

text \<open>
  A message id is \<open>fresh\<close> in a state that has emitted nothing for it and holds no timer
  for it. \<open>lifecycle\<close> lists the stages an id can be in: what has been emitted for it so
  far, and which timer of its is armed.
\<close>

definition fresh :: "string \<Rightarrow> service \<Rightarrow> bool" where
  "fresh m s \<longleftrightarrow> statusesOf m (emitted s) = [] \<and> timersOf m (timers s) = []"

definition lifecycle :: "string \<Rightarrow> service \<Rightarrow> bool" where
  "lifecycle m s \<longleftrightarrow>
     (let E = statusesOf m (emitted s); T = timersOf m (timers s) in
        (E = [] \<and> T = []) \<or>
        (E = [SENT] \<and> T = [Delivery m]) \<or>
        (E = [SENT, DELIVERED] \<and> T = [ReadReceipt m]) \<or>
        (E = [SENT, DELIVERED] \<and> T = []) \<or>
        (E = [SENT, DELIVERED, READ] \<and> T = []))"

section \<open>The application shell (App)\<close>

text \<open>
  Modelled from the spec: the string values of the \<^verbatim>\<open>Channel\<close> enum, whose declaration
  (\<^verbatim>\<open>types.ts\<close>) is not among the sources; the glossary names the three transports
  WhatsApp, WeChat and Email. The values are non-empty, so \<^verbatim>\<open>channelOverride || Channel.EMAIL\<close>
  falls back to Email only when no channel is passed.
\<close>

definition channelValue :: "Channel option \<Rightarrow> string" where
  "channelValue c = (case c of None \<Rightarrow> ''undefined''
                     | Some WHATSAPP \<Rightarrow> ''WhatsApp''
                     | Some WECHAT \<Rightarrow> ''WeChat''
                     | Some EMAIL \<Rightarrow> ''Email'')"

text \<open>\<^verbatim>\<open>addMessage\<close> (lines 631 to 643): the new message and the next store.\<close>

definition addMessage ::
  "string \<Rightarrow> string \<Rightarrow> Sender \<Rightarrow> Channel option \<Rightarrow> MessageStatus option \<Rightarrow> nat
     \<Rightarrow> 'a Importer_scheme list \<Rightarrow> Message \<times> 'a Importer_scheme list" where
  "addMessage importerId content' sender' channelOverride initialStatus now prev =
     (let newMessage =
            \<lparr> id_msg = toString now, content = content', sender = sender',
              timestamp_msg = now,
              channel = (case channelOverride of None \<Rightarrow> EMAIL | Some c \<Rightarrow> c),
              status_msg = initialStatus, feedback = None \<rparr>;
          entry = (\<lambda>what. \<lparr> id_log = ''msg-'' @ id_msg newMessage, timestamp_log = now,
                             type_log = ''system'',
                             description = what @ channelValue channelOverride \<rparr>)
      in (newMessage,
          map (\<lambda>imp. if id_imp imp \<noteq> importerId then imp
                      else imp\<lparr> chatHistory := chatHistory imp @ [newMessage],
                                activityLog :=
                                  activityLog imp @
                                    (if sender' = agent then [entry ''Outbound via '']
                                     else if sender' = importer then [entry ''Inbound via '']
                                     else []),
                                lastContacted := Some now \<rparr>) prev))"

text \<open>
  \<^verbatim>\<open>updateImporter\<close> (lines 600 to 611). \<open>updates\<close> is what the spread
  \<^verbatim>\<open>{...imp, ...updates}\<close> does to a lead; \<open>logDescription\<close> is the optional third argument.
\<close>

definition updateImporter ::
  "string \<Rightarrow> ('a Importer_scheme \<Rightarrow> 'a Importer_scheme) \<Rightarrow> string option \<Rightarrow> nat
     \<Rightarrow> 'a Importer_scheme list \<Rightarrow> 'a Importer_scheme list" where
  "updateImporter id' updates logDescription now prev =
     map (\<lambda>imp. if id_imp imp = id' then
                   (let updatedImp = updates imp in
                    case logDescription of
                      None \<Rightarrow> updatedImp
                    | Some d \<Rightarrow>
                        if d = [] then updatedImp
                        else updatedImp\<lparr> activityLog := activityLog updatedImp @
                               [\<lparr> id_log = ''act-'' @ toString now, timestamp_log = now,
                                  type_log = ''status_change'', description = d \<rparr>] \<rparr>)
                 else imp) prev"

text \<open>
  The state of the shell that the messaging code reads and writes: the service module,
  the store of leads, the selected lead, the typing indicators, the calls made to
  \<^verbatim>\<open>CampaignService.stopEnrollment\<close>, the alerts shown, the calls of \<^verbatim>\<open>sendMessage\<close>
  suspended at their \<^verbatim>\<open>await\<close>, and the lead ids of the inbound handler's calls suspended
  at \<^verbatim>\<open>await analyzeLeadQuality\<close>.
\<close>

record pending_send =
  p_msg :: string
  p_importer :: string
  p_to :: string
  p_content :: string
  p_channel :: Channel

record 'a app =
  svc :: service
  importers :: "'a Importer_scheme list"
  selectedId :: "string option"
  importerTypingMap :: "string \<rightharpoonup> bool"
  stopEnrollment :: "string list"
  alerts :: "string list"
  awaiting :: "pending_send list"
  analysing :: "string list"

text \<open>
  The handlers the shell registers with the service (lines 520 to 577). A handler closes
  over \<^verbatim>\<open>selectedId\<close> and \<^verbatim>\<open>importers\<close> of the render that registered it, and the effect
  registers it again after every render that changes them: the model reads the current
  values. \<open>now\<close> is the reading of \<^verbatim>\<open>Date.now()\<close> while the handler runs.

  The inbound handler: \<^verbatim>\<open>importerId || selectedId\<close> names the target; the campaign
  enrollment is stopped, the message is added without a status, and when the lead is in
  the store the call suspends at the analysis.
\<close>

definition nonEmpty :: "string option \<Rightarrow> bool" where
  "nonEmpty i \<longleftrightarrow> (case i of None \<Rightarrow> False | Some s \<Rightarrow> s \<noteq> [])"

definition incomingHandler ::
  "string option \<Rightarrow> string \<Rightarrow> string \<Rightarrow> Channel \<Rightarrow> nat \<Rightarrow> 'a app \<Rightarrow> 'a app" where
  "incomingHandler importerId contact content' channel' now a =
     (let targetId = (if nonEmpty importerId then importerId else selectedId a) in
      case targetId of
        None \<Rightarrow> a
      | Some t \<Rightarrow>
          if t = [] then a
          else a\<lparr> stopEnrollment := stopEnrollment a @ [t],
                  importers := snd (addMessage t content' importer (Some channel') None now (importers a)),
                  analysing := analysing a @
                    (case find (\<lambda>i. id_imp i = t) (importers a) of None \<Rightarrow> [] | Some imp \<Rightarrow> [t]) \<rparr>)"

fun appHandlers :: "nat \<Rightarrow> handler option \<times> event \<Rightarrow> 'a app \<Rightarrow> 'a app" where
  "appHandlers now (Some h, StatusUpdate messageId status) a =
     a\<lparr> importers := statusUpdateHandler messageId status (importers a) \<rparr>"
| "appHandlers now (Some h, TypingStatus importerId isTyping) a =
     a\<lparr> importerTypingMap := (importerTypingMap a)(importerId \<mapsto> isTyping) \<rparr>"
| "appHandlers now (Some h, IncomingMessage importerId contact content' channel') a =
     incomingHandler importerId contact content' channel' now a"
| "appHandlers now (None, e) a = a"

text \<open>What the service emitted during one of its calls reaches the shell's handlers in
  the order of emission.\<close>

definition deliver :: "nat \<Rightarrow> service \<Rightarrow> service \<Rightarrow> 'a app \<Rightarrow> 'a app" where
  "deliver now before after a =
     fold (appHandlers now) (drop (length (emitted before)) (emitted after)) a"

text \<open>
  The suspended analysis of the \<open>k\<close>-th inbound message returns (lines 542 to 554): its
  status and what its eight other fields do to the rest of the lead go into the lead
  through \<^verbatim>\<open>updateImporter\<close>. The browser notification that a critical sentiment may
  raise is, like the console, not part of the state.
\<close>

definition analysisReturns ::
  "nat \<Rightarrow> LeadStatus \<Rightarrow> ('a \<Rightarrow> 'a) \<Rightarrow> nat \<Rightarrow> 'a app \<Rightarrow> 'a app" where
  "analysisReturns k status rest now a =
     (if k < length (analysing a) then
        a\<lparr> importers :=
              updateImporter (analysing a ! k)
                (\<lambda>imp. Importer.more_update rest (imp\<lparr> status_imp := status \<rparr>)) None now
                (importers a),
            analysing := take k (analysing a) @ drop (Suc k) (analysing a) \<rparr>
      else a)"

text \<open>\<^verbatim>\<open>sendMessage\<close> of the shell (lines 645 to 653), up to its \<^verbatim>\<open>await\<close>.\<close>

definition sendMessage_begin ::
  "'a Importer_scheme \<Rightarrow> string \<Rightarrow> Channel \<Rightarrow> nat \<Rightarrow> 'a app \<Rightarrow> 'a app" where
  "sendMessage_begin imp content' channel' now a =
     (let (msg, next) = addMessage (id_imp imp) content' agent (Some channel') (Some SENDING)
                          now (importers a)
      in a\<lparr> importers := next,
            awaiting := awaiting a @
              [\<lparr> p_msg = id_msg msg, p_importer = id_imp imp, p_to = contactDetail imp,
                 p_content = content', p_channel = channel' \<rparr>] \<rparr>)"

text \<open>The \<open>k\<close>-th suspended call resumes at the time \<open>now\<close>: the service resolves, its
  emissions reach the handlers, and on a failure the shell marks the message and alerts.\<close>

definition sendMessage_resume :: "nat \<Rightarrow> rat \<Rightarrow> nat \<Rightarrow> 'a app \<Rightarrow> 'a app" where
  "sendMessage_resume k r now a =
     (if k < length (awaiting a) then
        (let p = awaiting a ! k;
             (result, svc') = sendMessage (p_msg p) (p_to p) (p_content p) (p_channel p) r (svc a);
             a1 = deliver now (svc a) svc'
                    (a\<lparr> svc := svc',
                        awaiting := take k (awaiting a) @ drop (Suc k) (awaiting a) \<rparr>)
         in if \<not> success result then
              a1\<lparr> importers :=
                     map (\<lambda>i. if id_imp i = p_importer p
                               then i\<lparr> chatHistory :=
                                        map (\<lambda>m. if id_msg m = p_msg p
                                                  then m\<lparr> status_msg := Some FAILED \<rparr> else m)
                                            (chatHistory i) \<rparr>
                               else i) (importers a1),
                   alerts := alerts a1 @
                     [''Failed to send: '' @ (case error result of None \<Rightarrow> ''undefined'' | Some e \<Rightarrow> e)] \<rparr>
            else a1)
      else a)"

text \<open>A call of the shell's \<^verbatim>\<open>sendMessage\<close> with nothing else running between its two
  halves: it begins at \<open>now\<close> and resumes at \<open>later\<close>.\<close>

definition sendMessage_App ::
  "'a Importer_scheme \<Rightarrow> string \<Rightarrow> Channel \<Rightarrow> nat \<Rightarrow> nat \<Rightarrow> rat \<Rightarrow> 'a app \<Rightarrow> 'a app" where
  "sendMessage_App imp content' channel' now later r a =
     sendMessage_resume (length (awaiting a)) r later (sendMessage_begin imp content' channel' now a)"

text \<open>The \<open>k\<close>-th timer of the service fires at the time \<open>now\<close>.\<close>

definition timerFires :: "nat \<Rightarrow> rat \<Rightarrow> rat \<Rightarrow> nat \<Rightarrow> 'a app \<Rightarrow> 'a app" where
  "timerFires k r2 r3 now a =
     (let svc' = fire k r2 r3 (svc a)
      in deliver now (svc a) svc' (a\<lparr> svc := svc' \<rparr>))"

text \<open>The call of \<^verbatim>\<open>MessagingService.receiveMockReply\<close> on line 691, with the id and the
  preferred channel of the selected lead and the simulated reply.\<close>

definition mockReply :: "string \<Rightarrow> string \<Rightarrow> Channel \<Rightarrow> nat \<Rightarrow> 'a app \<Rightarrow> 'a app" where
  "mockReply importerId reply channel' now a =
     (let svc' = receiveMockReply importerId reply channel' (svc a)
      in deliver now (svc a) svc' (a\<lparr> svc := svc' \<rparr>))"

text \<open>The webhook listener of lines 447 to 495 on the shell's state. An exception leaves
  the state as it was.\<close>

definition webhookReceived ::
  "string \<Rightarrow> json \<Rightarrow> nat option \<Rightarrow> nat \<Rightarrow> 'a app \<Rightarrow> js_error + 'a app" where
  "webhookReceived channel' payload timestamp now a =
     (case onWebhookPayload channel' payload timestamp now (importers a) of
        Inl e \<Rightarrow> Inl e
      | Inr (stop, next) \<Rightarrow>
          Inr (a\<lparr> importers := next,
                  stopEnrollment := stopEnrollment a @ (case stop of None \<Rightarrow> [] | Some i \<Rightarrow> [i]) \<rparr>))"

text \<open>What can happen to the shell, one call, resumption or timer at a time.\<close>

datatype 'a app_action =
    BeginSend "'a Importer_scheme" string Channel nat
  | ResumeSend nat rat nat
  | TimerFires nat rat rat nat
  | Webhook string json "nat option" nat
  | MockReply string string Channel nat
  | AnalysisReturns nat LeadStatus "'a \<Rightarrow> 'a" nat
  | Select "string option"

fun app_step :: "'a app_action \<Rightarrow> 'a app \<Rightarrow> 'a app" where
  "app_step (BeginSend imp content' channel' now) a = sendMessage_begin imp content' channel' now a"
| "app_step (ResumeSend k r now) a = sendMessage_resume k r now a"
| "app_step (TimerFires k r2 r3 now) a = timerFires k r2 r3 now a"
| "app_step (Webhook channel' payload timestamp now) a =
     (case webhookReceived channel' payload timestamp now a of Inl e \<Rightarrow> a | Inr a' \<Rightarrow> a')"
| "app_step (MockReply importerId reply channel' now) a = mockReply importerId reply channel' now a"
| "app_step (AnalysisReturns k status rest now) a = analysisReturns k status rest now a"
| "app_step (Select i) a = a\<lparr> selectedId := i \<rparr>"

section \<open>Example payloads and leads\<close>

text \<open>A WhatsApp body whose \<^verbatim>\<open>entry[0].changes[0].value.messages[0]\<close> is the object with the
  given members; a WeChat body; a lead with an id and a contact detail and no history.\<close>

definition whatsappPayload :: "(string \<times> json) list \<Rightarrow> json" where
  "whatsappPayload kvs =
     JObj [(''entry'', JArr [JObj [(''changes'', JArr [JObj [(''value'',
       JObj [(''messages'', JArr [JObj kvs])])]])]])]"

definition wechatPayload :: "string \<Rightarrow> string \<Rightarrow> json" where
  "wechatPayload c u = JObj [(''Content'', JStr c), (''FromUserName'', JStr u)]"

definition bareLead :: "string \<Rightarrow> string \<Rightarrow> Importer" where
  "bareLead i c =
     \<lparr> id_imp = i, contactDetail = c, status_imp = PENDING, chatHistory = [],
       lastContacted = None, activityLog = [] \<rparr>"

definition shell :: "service \<Rightarrow> Importer list \<Rightarrow> unit app" where
  "shell s leads =
     \<lparr> svc = s, importers = leads, selectedId = None, importerTypingMap = Map.empty,
       stopEnrollment = [], alerts = [], awaiting = [], analysing = [] \<rparr>"

text \<open>The WhatsApp body of the spec's example: text Hi from 15558675309.\<close>

definition hiPayload :: json where
  "hiPayload = whatsappPayload [(''text'', JObj [(''body'', JStr ''Hi'')]), (''from'', JStr ''15558675309'')]"

section \<open>The lifecycle of a stored message\<close>

text \<open>
  The order of the statuses: SENDING before SENT before DELIVERED before READ, and FAILED
  after SENDING only. A status field \<open>advances\<close> when it stays as it is or moves forward
  in that order; a message without a status keeps none.
\<close>

fun precedes :: "MessageStatus \<Rightarrow> MessageStatus \<Rightarrow> bool" where
  "precedes SENDING s = (s = SENT \<or> s = DELIVERED \<or> s = READ \<or> s = FAILED)"
| "precedes SENT s = (s = DELIVERED \<or> s = READ)"
| "precedes DELIVERED s = (s = READ)"
| "precedes READ s = False"
| "precedes FAILED s = False"

fun advances :: "MessageStatus option \<Rightarrow> MessageStatus option \<Rightarrow> bool" where
  "advances None None = True"
| "advances (Some s) (Some s') = (s' = s \<or> precedes s s')"
| "advances _ _ = False"

text \<open>
  One step of the store, seen from its messages: the leads stay in place with their ids,
  every history keeps its messages in place and may grow at the end, and a message that
  was there differs from its earlier self in the status field at most, which advances.
\<close>

definition msg_step :: "Message \<Rightarrow> Message \<Rightarrow> bool" where
  "msg_step m m' \<longleftrightarrow> m' = m\<lparr> status_msg := status_msg m' \<rparr> \<and> advances (status_msg m) (status_msg m')"

definition history_step :: "Message list \<Rightarrow> Message list \<Rightarrow> bool" where
  "history_step h h' \<longleftrightarrow> length h \<le> length h' \<and> list_all2 msg_step h (take (length h) h')"

definition store_step :: "'a Importer_scheme list \<Rightarrow> 'a Importer_scheme list \<Rightarrow> bool" where
  "store_step old new \<longleftrightarrow>
     list_all2 (\<lambda>i i'. id_imp i' = id_imp i \<and> history_step (chatHistory i) (chatHistory i')) old new"

text \<open>
  The message ids in flight: those of the suspended sends and of the armed delivery and
  read timers. A step that names a new message by the decimal of \<^verbatim>\<open>Date.now()\<close>, the
  beginning of a send or a mock reply that arrives, is admissible when that id is
  neither in flight nor the id of a stored message: the caller-unique id that the service
  asks for.
\<close>

fun deliveryIds :: "(rat \<times> task) list \<Rightarrow> string list" where
  "deliveryIds [] = []"
| "deliveryIds ((d, Delivery m) # ts) = m # deliveryIds ts"
| "deliveryIds (_ # ts) = deliveryIds ts"

fun readIds :: "(rat \<times> task) list \<Rightarrow> string list" where
  "readIds [] = []"
| "readIds ((d, ReadReceipt m) # ts) = m # readIds ts"
| "readIds (_ # ts) = readIds ts"

definition inFlight :: "'a app \<Rightarrow> string list" where
  "inFlight a = map p_msg (awaiting a) @ deliveryIds (timers (svc a)) @ readIds (timers (svc a))"

definition allMessages :: "'a Importer_scheme list \<Rightarrow> Message list" where
  "allMessages store = concat (map chatHistory store)"

definition freshId :: "nat \<Rightarrow> 'a app \<Rightarrow> bool" where
  "freshId now a \<longleftrightarrow>
     toString now \<notin> set (inFlight a) \<and> toString now \<notin> id_msg ` set (allMessages (importers a))"

definition replyAt :: "nat \<Rightarrow> 'a app \<Rightarrow> bool" where
  "replyAt k a \<longleftrightarrow>
     k < length (timers (svc a)) \<and>
     (case snd (timers (svc a) ! k) of Reply i c ch \<Rightarrow> True | _ \<Rightarrow> False)"

fun admissible :: "'a app_action \<Rightarrow> 'a app \<Rightarrow> bool" where
  "admissible (BeginSend imp content' channel' now) a \<longleftrightarrow> freshId now a"
| "admissible (TimerFires k r2 r3 now) a \<longleftrightarrow> (replyAt k a \<longrightarrow> freshId now a)"
| "admissible _ a \<longleftrightarrow> True"

fun admissible_run :: "'a app_action list \<Rightarrow> 'a app \<Rightarrow> bool" where
  "admissible_run [] a \<longleftrightarrow> True"
| "admissible_run (x # xs) a \<longleftrightarrow> admissible x a \<and> admissible_run xs (app_step x a)"

text \<open>The stores a run goes through, the first one included.\<close>

fun stores :: "'a app_action list \<Rightarrow> 'a app \<Rightarrow> 'a Importer_scheme list list" where
  "stores [] a = [importers a]"
| "stores (x # xs) a = importers a # stores xs (app_step x a)"

text \<open>
  What the ids in flight say about the store: the ids are distinct decimals, and a stored
  message whose send is suspended is SENDING, one whose delivery timer is armed is SENDING
  or SENT, one whose read timer is armed is SENDING, SENT or DELIVERED.
\<close>

definition fits :: "string set \<Rightarrow> string set \<Rightarrow> string set \<Rightarrow> Message \<Rightarrow> bool" where
  "fits W D R m \<longleftrightarrow>
     (id_msg m \<in> W \<longrightarrow> status_msg m = Some SENDING) \<and>
     (id_msg m \<in> D \<longrightarrow> status_msg m = Some SENDING \<or> status_msg m = Some SENT) \<and>
     (id_msg m \<in> R \<longrightarrow>
        status_msg m = Some SENDING \<or> status_msg m = Some SENT \<or> status_msg m = Some DELIVERED)"

definition staged :: "'a app \<Rightarrow> bool" where
  "staged a \<longleftrightarrow>
     distinct (inFlight a) \<and>
     (\<forall>t\<in>set (inFlight a). \<exists>n. t = toString n) \<and>
     (\<forall>m\<in>set (allMessages (importers a)).
        fits (set (map p_msg (awaiting a))) (set (deliveryIds (timers (svc a))))
             (set (readIds (timers (svc a)))) m)"

text \<open>The message a status handler leaves in place of \<open>m\<close>, when the slot holds \<open>l\<close>.\<close>

definition stamp :: "handler option \<Rightarrow> string \<Rightarrow> MessageStatus \<Rightarrow> Message \<Rightarrow> Message" where
  "stamp l messageId status m =
     (if l \<noteq> None \<and> id_msg m = messageId then m\<lparr> status_msg := Some status \<rparr> else m)"


section \<open>The status sequence of one message\<close>

lemma statusesOf_append: "statusesOf m (xs @ ys) = statusesOf m xs @ statusesOf m ys"
  by (induction m xs rule: statusesOf.induct) auto

lemma timersOf_append: "timersOf m (xs @ ys) = timersOf m xs @ timersOf m ys"
  by (induction m xs rule: timersOf.induct) auto

lemma timersOf_split:
  assumes "k < length ts"
  shows "timersOf m ts = timersOf m (take k ts) @ timersOf m [ts ! k] @ timersOf m (drop (Suc k) ts)"
proof -
  have "ts = take k ts @ [ts ! k] @ drop (Suc k) ts"
    using assms by (simp add: id_take_nth_drop)
  then have "timersOf m ts = timersOf m (take k ts @ [ts ! k] @ drop (Suc k) ts)" by simp
  then show ?thesis by (simp only: timersOf_append)
qed

lemma statusesOf_received: "subseq (statusesOf m (received es)) (statusesOf m es)"
  unfolding received_def
  by (induction m es rule: statusesOf.induct) auto

text \<open>The effect of each operation on the emissions and timers of one id.\<close>

lemma emitStatus_view [simp]:
  "statusesOf m (emitted (emitStatus m' st s)) =
     statusesOf m (emitted s) @ (if m' = m then [st] else [])"
  "timers (emitStatus m' st s) = timers s"
  by (simp_all add: emitStatus_def statusesOf_append)

lemma emitTyping_view [simp]:
  "statusesOf m (emitted (emitTyping i b s)) = statusesOf m (emitted s)"
  "timers (emitTyping i b s) = timers s"
  by (simp_all add: emitTyping_def statusesOf_append)

lemma emitIncoming_view [simp]:
  "statusesOf m (emitted (emitIncoming i c t ch s)) = statusesOf m (emitted s)"
  "timers (emitIncoming i c t ch s) = timers s"
  by (simp_all add: emitIncoming_def statusesOf_append)

lemma setTimeout_view [simp]:
  "emitted (setTimeout t d s) = emitted s"
  "timersOf m (timers (setTimeout t d s)) = timersOf m (timers s) @ timersOf m [(d, t)]"
  by (simp_all add: setTimeout_def timersOf_append)

lemma register_view [simp]:
  "emitted (onIncomingMessage h s) = emitted s" "timers (onIncomingMessage h s) = timers s"
  "emitted (onMessageStatusUpdate h s) = emitted s" "timers (onMessageStatusUpdate h s) = timers s"
  "emitted (onTypingStatus h s) = emitted s" "timers (onTypingStatus h s) = timers s"
  by (simp_all add: onIncomingMessage_def onMessageStatusUpdate_def onTypingStatus_def)

lemma runTask_view:
  "statusesOf m (emitted (runTask t r2 r3 s)) =
     statusesOf m (emitted s) @
       (case t of Delivery m' \<Rightarrow> if m' = m then [DELIVERED] else []
                | ReadReceipt m' \<Rightarrow> if m' = m then [READ] else []
                | Reply i c ch \<Rightarrow> [])"
  "timersOf m (timers (runTask t r2 r3 s)) =
     timersOf m (timers s) @
       (case t of Delivery m' \<Rightarrow> if m' = m \<and> r2 > 3 / 10 then [ReadReceipt m] else []
                | _ \<Rightarrow> [])"
  by (cases t; simp add: Let_def)+

lemma fire_view:
  assumes "k < length (timers s)" and "timers s ! k = (d, t)"
  shows "statusesOf m (emitted (fire k r2 r3 s)) =
     statusesOf m (emitted s) @
       (case t of Delivery m' \<Rightarrow> if m' = m then [DELIVERED] else []
                | ReadReceipt m' \<Rightarrow> if m' = m then [READ] else []
                | Reply i c ch \<Rightarrow> [])"
   and "timersOf m (timers (fire k r2 r3 s)) =
     timersOf m (take k (timers s)) @ timersOf m (drop (Suc k) (timers s)) @
       (case t of Delivery m' \<Rightarrow> if m' = m \<and> r2 > 3 / 10 then [ReadReceipt m] else []
                | _ \<Rightarrow> [])"
  using assms by (simp_all add: fire_def runTask_view timersOf_append)


lemma single_middle: "A @ x # B = [y] \<Longrightarrow> A = [] \<and> B = [] \<and> x = y"
  by (cases A) auto

lemma fresh_step:
  assumes "fresh m s" and "sendsOf m [a] = 0"
  shows "fresh m (step a s)"
proof (cases a)
  case (Fire k r2 r3)
  show ?thesis
  proof (cases "k < length (timers s)")
    case True
    obtain d t where dt: "timers s ! k = (d, t)" by (cases "timers s ! k")
    from assms(1) timersOf_split[OF True, of m]
    have e: "timersOf m (take k (timers s)) = []" "timersOf m [(d, t)] = []"
      "timersOf m (drop (Suc k) (timers s)) = []"
      by (auto simp: fresh_def dt)
    from e(2) have nt: "t \<noteq> Delivery m" "t \<noteq> ReadReceipt m" by auto
    show ?thesis
      using assms(1) e nt unfolding Fire fresh_def step.simps fire_view[OF True dt]
      by (cases t) auto
  next
    case False
    then show ?thesis using assms Fire by (simp add: fire_def)
  qed
next
  case (SendMessage m' to' c ch r)
  then have "m' \<noteq> m" using assms(2) by (auto split: if_splits)
  then show ?thesis using assms(1) SendMessage by (simp add: fresh_def sendMessage_def)
next
  case (ReceiveMockReply i c ch)
  then show ?thesis using assms(1) by (simp add: fresh_def receiveMockReply_def)
qed (use assms in \<open>simp_all add: fresh_def\<close>)

lemma lifecycle_fire:
  assumes l: "lifecycle m s" and k: "k < length (timers s)"
  shows "lifecycle m (fire k r2 r3 s)"
proof -
  obtain d t where dt: "timers s ! k = (d, t)" by (cases "timers s ! k")
  let ?A = "timersOf m (take k (timers s))" and ?B = "timersOf m (drop (Suc k) (timers s))"
  have sp: "timersOf m (timers s) = ?A @ timersOf m [(d, t)] @ ?B"
    using timersOf_split[OF k, of m] by (simp add: dt)
  have "t = Delivery m \<or> t = ReadReceipt m \<or> timersOf m [(d, t)] = []"
    by (cases t) auto
  then consider (mine_d) "t = Delivery m" | (mine_r) "t = ReadReceipt m" | (other) "timersOf m [(d, t)] = []"
    by blast
  then show ?thesis
  proof cases
    case mine_d
    with sp have "timersOf m (timers s) = ?A @ Delivery m # ?B" by simp
    with l have "?A = []" "?B = []" "statusesOf m (emitted s) = [SENT]"
      by (auto simp: lifecycle_def Let_def dest: single_middle)
    then show ?thesis unfolding lifecycle_def fire_view[OF k dt] by (simp add: mine_d)
  next
    case mine_r
    with sp have "timersOf m (timers s) = ?A @ ReadReceipt m # ?B" by simp
    with l have "?A = []" "?B = []" "statusesOf m (emitted s) = [SENT, DELIVERED]"
      by (auto simp: lifecycle_def Let_def dest: single_middle)
    then show ?thesis unfolding lifecycle_def fire_view[OF k dt] by (simp add: mine_r)
  next
    case other
    with sp have same: "?A @ ?B = timersOf m (timers s)" by simp
    from other have nt: "t \<noteq> Delivery m" "t \<noteq> ReadReceipt m" by auto
    have "statusesOf m (emitted (fire k r2 r3 s)) = statusesOf m (emitted s)"
      unfolding fire_view[OF k dt] using nt by (cases t) auto
    moreover have "timersOf m (timers (fire k r2 r3 s)) = timersOf m (timers s)"
      unfolding fire_view[OF k dt] using nt same by (cases t) auto
    ultimately show ?thesis using l by (simp add: lifecycle_def)
  qed
qed

lemma lifecycle_step:
  assumes "lifecycle m s" and "sendsOf m [a] = 0"
  shows "lifecycle m (step a s)"
proof (cases a)
  case (Fire k r2 r3)
  then show ?thesis using assms(1) lifecycle_fire[of m s k r2 r3]
    by (cases "k < length (timers s)") (simp_all add: fire_def)
next
  case (SendMessage m' to' c ch r)
  then have "m' \<noteq> m" using assms(2) by (auto split: if_splits)
  then show ?thesis using assms(1) SendMessage by (simp add: lifecycle_def sendMessage_def)
next
  case (ReceiveMockReply i c ch)
  then show ?thesis using assms(1) by (simp add: lifecycle_def receiveMockReply_def)
qed (use assms in \<open>simp_all add: lifecycle_def\<close>)

lemma lifecycle_send:
  assumes "fresh m s"
  shows "lifecycle m (step (SendMessage m to' c ch r) s)"
  using assms by (simp add: fresh_def lifecycle_def sendMessage_def)

lemma fresh_lifecycle: "fresh m s \<Longrightarrow> lifecycle m s"
  by (simp add: fresh_def lifecycle_def)

lemma lifecycle_run:
  assumes "lifecycle m s" and "fresh m s \<or> sendsOf m acts = 0" and "sendsOf m acts \<le> 1"
  shows "lifecycle m (run acts s)"
  using assms
proof (induction acts arbitrary: s)
  case Nil
  then show ?case by simp
next
  case (Cons a acts)
  show ?case
  proof (cases "sendsOf m [a] = 0")
    case True
    then have eq: "sendsOf m (a # acts) = sendsOf m acts"
      by (cases a) (auto split: if_splits)
    have "lifecycle m (step a s)" using Cons.prems(1) True by (rule lifecycle_step)
    moreover have "fresh m (step a s) \<or> sendsOf m acts = 0"
      using Cons.prems(2) True eq fresh_step by auto
    moreover have "sendsOf m acts \<le> 1" using Cons.prems(3) eq by simp
    ultimately show ?thesis using Cons.IH by simp
  next
    case False
    then obtain to' c ch r where a: "a = SendMessage m to' c ch r"
      by (cases a) (auto split: if_splits)
    then have z: "sendsOf m acts = 0" using Cons.prems(3) by simp
    have f: "fresh m s" using Cons.prems(2) a by auto
    have "lifecycle m (step a s)" unfolding a using f by (rule lifecycle_send)
    then show ?thesis using Cons.IH z by simp
  qed
qed

lemma lifecycle_prefix:
  "lifecycle m s \<Longrightarrow> prefix (statusesOf m (emitted s)) [SENT, DELIVERED, READ]"
  by (auto simp: lifecycle_def Let_def prefix_def)

text \<open>
  Claim C1, as stated, fails when a message id is passed to \<^verbatim>\<open>sendMessage\<close> twice: the
  service keeps no record of the ids it has seen, each accepted call emits SENT and arms
  its own delivery timer, and the statuses emitted for the id are SENT, SENT, DELIVERED,
  READ, DELIVERED, with SENT and DELIVERED twice and a DELIVERED after READ.
\<close>

theorem repeated_id_counterexample:
  "statusesOf ''m1'' (emitted (run [OnMessageStatusUpdate 1,
          SendMessage ''m1'' ''wx_123'' ''hello'' WECHAT (1 / 2),
          SendMessage ''m1'' ''wx_123'' ''hello'' WECHAT (1 / 2),
          Fire 0 (1 / 2) (1 / 4), Fire 1 0 0, Fire 0 0 0] idle))
     = [SENT, SENT, DELIVERED, READ, DELIVERED]
   \<and> statusesOf ''m1'' (received (emitted (run [OnMessageStatusUpdate 1,
          SendMessage ''m1'' ''wx_123'' ''hello'' WECHAT (1 / 2),
          SendMessage ''m1'' ''wx_123'' ''hello'' WECHAT (1 / 2),
          Fire 0 (1 / 2) (1 / 4), Fire 1 0 0, Fire 0 0 0] idle)))
     = [SENT, SENT, DELIVERED, READ, DELIVERED]
   \<and> \<not> subseq [SENT, SENT, DELIVERED, READ, DELIVERED] [SENT, DELIVERED, READ]"
  by (simp add: idle_def onMessageStatusUpdate_def sendMessage_def fire_def emitStatus_def
      setTimeout_def deliveryDelay_def received_def Let_def)

text \<open>
  Claim C1, amended. Take a message id that is caller-unique: nothing has been emitted
  and no timer is armed for it, and it is passed to \<^verbatim>\<open>sendMessage\<close> at most once in a run
  of the module under any registrations, other sends, mock replies and timer firings.
  The statuses emitted for it form a prefix of SENT, DELIVERED, READ: each at most once,
  in that order, READ only after DELIVERED. The statuses that reach a handler (an
  emission is dropped while no handler is registered) form a subsequence of SENT,
  DELIVERED, READ. FAILED is never emitted.
\<close>

theorem status_sequence:
  assumes "fresh m s" and "sendsOf m acts \<le> 1"
  shows "prefix (statusesOf m (emitted (run acts s))) [SENT, DELIVERED, READ]
       \<and> subseq (statusesOf m (received (emitted (run acts s)))) [SENT, DELIVERED, READ]
       \<and> FAILED \<notin> set (statusesOf m (emitted (run acts s)))"
proof -
  have l: "lifecycle m (run acts s)"
    using assms by (intro lifecycle_run fresh_lifecycle) auto
  then have p: "prefix (statusesOf m (emitted (run acts s))) [SENT, DELIVERED, READ]"
    by (rule lifecycle_prefix)
  have "subseq (statusesOf m (received (emitted (run acts s)))) (statusesOf m (emitted (run acts s)))"
    by (rule statusesOf_received)
  moreover have "subseq (statusesOf m (emitted (run acts s))) [SENT, DELIVERED, READ]"
    using p by (rule prefix_imp_subseq)
  ultimately have q: "subseq (statusesOf m (received (emitted (run acts s)))) [SENT, DELIVERED, READ]"
    by (rule subseq_order.order_trans)
  have "FAILED \<notin> set (statusesOf m (emitted (run acts s)))"
    using p by (auto dest!: set_mono_prefix)
  with p q show ?thesis by simp
qed


theorem status_sequence_witness:
  "fresh ''m1'' idle
   \<and> sendsOf ''m1'' [OnMessageStatusUpdate 1, SendMessage ''m1'' ''wx_123'' ''hello'' WECHAT (1 / 2),
                      Fire 0 (1 / 2) (1 / 4), Fire 0 0 0] \<le> 1
   \<and> statusesOf ''m1'' (emitted (run [OnMessageStatusUpdate 1,
          SendMessage ''m1'' ''wx_123'' ''hello'' WECHAT (1 / 2),
          Fire 0 (1 / 2) (1 / 4), Fire 0 0 0] idle)) = [SENT, DELIVERED, READ]
   \<and> prefix (statusesOf ''m1'' (emitted (run [OnMessageStatusUpdate 1,
          SendMessage ''m1'' ''wx_123'' ''hello'' WECHAT (1 / 2),
          Fire 0 (1 / 2) (1 / 4), Fire 0 0 0] idle))) [SENT, DELIVERED, READ]"
proof -
  have f: "fresh ''m1'' idle"
    by (simp add: fresh_def idle_def)
  have n: "sendsOf ''m1'' [OnMessageStatusUpdate 1, SendMessage ''m1'' ''wx_123'' ''hello'' WECHAT (1 / 2),
                      Fire 0 (1 / 2) (1 / 4), Fire 0 0 0] \<le> 1"
    by simp
  have e: "statusesOf ''m1'' (emitted (run [OnMessageStatusUpdate 1,
          SendMessage ''m1'' ''wx_123'' ''hello'' WECHAT (1 / 2),
          Fire 0 (1 / 2) (1 / 4), Fire 0 0 0] idle)) = [SENT, DELIVERED, READ]"
    by (simp add: idle_def onMessageStatusUpdate_def sendMessage_def fire_def emitStatus_def
        setTimeout_def deliveryDelay_def Let_def)
  show ?thesis
    using f n e status_sequence [OF f n] by simp
qed

section \<open>Webhook correlation\<close>

lemma whatsapp_msg_payload [simp]: "whatsapp_msg (whatsappPayload kvs) = Some (JObj kvs)"
  by (simp add: whatsapp_msg_def whatsappPayload_def)

lemma find_first:
  assumes "\<forall>i\<in>set pre. \<not> P i" and "P x"
  shows "find P (pre @ x # post) = Some x"
  using assms by (induction pre) auto

lemma find_none: "(\<forall>i\<in>set xs. \<not> P i) \<Longrightarrow> find P xs = None"
  by (simp add: find_None_iff)

lemma handler_match:
  assumes "extractFields channel' payload = Inr (Some (JStr c), Some (JStr k))"
      and "c \<noteq> []" and "k \<noteq> []"
      and "find (matches k) prev = Some existing"
  shows "onWebhookPayload channel' payload timestamp now prev =
           Inr (Some (id_imp existing),
                map (\<lambda>i. if id_imp i = id_imp existing
                          then withInbound channel' c timestamp now i else i) prev)"
  using assms by (simp add: onWebhookPayload_def webhookUpdate_def)

lemma handler_no_match:
  assumes "extractFields channel' payload = Inr (content', Some (JStr k))"
      and "find (matches k) prev = None"
  shows "onWebhookPayload channel' payload timestamp now prev = Inr (None, prev)"
  using assms
  by (auto simp: onWebhookPayload_def webhookUpdate_def split: option.splits json.splits)

lemma extract_wechat [simp]:
  "extractFields ''WeChat'' (wechatPayload c u) = Inr (Some (JStr c), Some (JStr u))"
  by (simp add: extractFields_def wechatPayload_def)

lemma extract_hi [simp]:
  "extractFields ''WhatsApp'' hiPayload = Inr (Some (JStr ''Hi''), Some (JStr ''15558675309''))"
  by (simp add: extractFields_def hiPayload_def)

text \<open>
  Claim C5. A payload whose extracted contact is a string that matches no lead of the
  store, in neither substring direction, is dropped: the listener returns the state of the
  shell exactly as it was. No lead is created, no lead, message, status or log changes,
  \<^verbatim>\<open>stopEnrollment\<close> is not called and the service emits nothing.
\<close>

theorem unmatched_payload_dropped:
  assumes "extractFields channel' payload = Inr (content', Some (JStr k))"
      and "\<forall>i\<in>set (importers a). \<not> matches k i"
  shows "webhookReceived channel' payload timestamp now a = Inr a"
proof -
  have "find (matches k) (importers a) = None"
    using assms(2) by (rule find_none)
  with assms(1) have "onWebhookPayload channel' payload timestamp now (importers a) = Inr (None, importers a)"
    by (rule handler_no_match)
  then show ?thesis by (simp add: webhookReceived_def)
qed

theorem unmatched_payload_dropped_witness:
  "extractFields ''WeChat'' (wechatPayload ''ok'' ''wx_999'') = Inr (Some (JStr ''ok''), Some (JStr ''wx_999''))
   \<and> \<not> matches ''wx_999'' (bareLead ''1'' ''wx_123'')
   \<and> webhookReceived ''WeChat'' (wechatPayload ''ok'' ''wx_999'') (Some 5) 7 (shell idle [bareLead ''1'' ''wx_123''])
       = Inr (shell idle [bareLead ''1'' ''wx_123''])"
proof -
  have e: "extractFields ''WeChat'' (wechatPayload ''ok'' ''wx_999'') = Inr (Some (JStr ''ok''), Some (JStr ''wx_999''))"
    by simp
  have n: "\<forall>i\<in>set (importers (shell idle [bareLead ''1'' ''wx_123''])). \<not> matches ''wx_999'' i"
    by (simp add: shell_def bareLead_def matches_def)
  show ?thesis
    using e n unmatched_payload_dropped [OF e n] by (simp add: shell_def)
qed

text \<open>
  Claim C2, as stated, fails: the lookup compares the stored contact detail and the
  extracted contact as they are, and neither of \<^verbatim>\<open>+1 (555) 867-5309\<close> and
  \<^verbatim>\<open>15558675309\<close> occurs in the other. The payload is dropped.
\<close>

theorem formatted_contact_counterexample:
  "\<not> matches ''15558675309'' (bareLead ''1'' ''+1 (555) 867-5309'')
   \<and> onWebhookPayload ''WhatsApp'' hiPayload (Some 5) 7 [bareLead ''1'' ''+1 (555) 867-5309'']
       = Inr (None, [bareLead ''1'' ''+1 (555) 867-5309''])"
  by (simp add: onWebhookPayload_def webhookUpdate_def matches_def bareLead_def)

text \<open>
  Claim C2, amended. For the same WhatsApp payload, delivered while the store contains a
  lead whose contact detail, as stored, contains \<^verbatim>\<open>15558675309\<close> or occurs in it, and no
  earlier lead of the store does, correlation selects that lead and appends to it an
  inbound message with content Hi. A lead whose contact detail is
  \<^verbatim>\<open>+1 (555) 867-5309\<close> is not matched by this payload.
\<close>

theorem raw_substring_match:
  assumes "\<forall>i\<in>set pre. \<not> matches ''15558675309'' i" and "matches ''15558675309'' lead"
  shows "onWebhookPayload ''WhatsApp'' hiPayload timestamp now (pre @ lead # post) =
           Inr (Some (id_imp lead),
                map (\<lambda>i. if id_imp i = id_imp lead
                          then withInbound ''WhatsApp'' ''Hi'' timestamp now i else i)
                    (pre @ lead # post))
       \<and> chatHistory (withInbound ''WhatsApp'' ''Hi'' timestamp now lead) =
           chatHistory lead @ [webhookMessage ''WhatsApp'' ''Hi'' timestamp now]
       \<and> content (webhookMessage ''WhatsApp'' ''Hi'' timestamp now) = ''Hi''
       \<and> sender (webhookMessage ''WhatsApp'' ''Hi'' timestamp now) = importer
       \<and> \<not> matches ''15558675309'' (bareLead anyId ''+1 (555) 867-5309'')"
proof -
  have "find (matches ''15558675309'') (pre @ lead # post) = Some lead"
    using assms by (rule find_first)
  then have "onWebhookPayload ''WhatsApp'' hiPayload timestamp now (pre @ lead # post) =
           Inr (Some (id_imp lead),
                map (\<lambda>i. if id_imp i = id_imp lead
                          then withInbound ''WhatsApp'' ''Hi'' timestamp now i else i)
                    (pre @ lead # post))"
    by (intro handler_match) simp_all
  then show ?thesis
    by (simp add: withInbound_def webhookMessage_def matches_def bareLead_def)
qed

theorem raw_substring_match_witness:
  "matches ''15558675309'' (bareLead ''1'' ''+15558675309'')
   \<and> onWebhookPayload ''WhatsApp'' hiPayload (Some 5) 7 [bareLead ''1'' ''+15558675309''] =
        Inr (Some ''1'', [withInbound ''WhatsApp'' ''Hi'' (Some 5) 7 (bareLead ''1'' ''+15558675309'')])"
proof -
  have p: "\<forall>i\<in>set []. \<not> matches ''15558675309'' (i::Importer)" by simp
  have m: "matches ''15558675309'' (bareLead ''1'' ''+15558675309'')"
    by (simp add: matches_def bareLead_def)
  show ?thesis
    using p m raw_substring_match [OF p m, of "Some 5" 7 "[]"]
    by (simp add: bareLead_def)
qed

text \<open>
  Claim C6, as stated, fails in a store where an earlier lead matches too: \<^verbatim>\<open>find\<close>
  returns the first match, here the lead whose contact detail \<^verbatim>\<open>wx_1\<close> occurs in
  \<^verbatim>\<open>wx_123\<close>, and the lead whose contact detail is \<^verbatim>\<open>wx_123\<close> is left as it was.
\<close>

theorem first_match_counterexample:
  "onWebhookPayload ''WeChat'' (wechatPayload ''ok'' ''wx_123'') (Some 5) 7
       [bareLead ''1'' ''wx_1'', bareLead ''2'' ''wx_123'']
     = Inr (Some ''1'', [withInbound ''WeChat'' ''ok'' (Some 5) 7 (bareLead ''1'' ''wx_1''),
                         bareLead ''2'' ''wx_123''])"
  by (simp add: onWebhookPayload_def webhookUpdate_def matches_def bareLead_def)

text \<open>
  Claim C6, amended. For the WeChat payload with Content ok and FromUserName wx_123,
  delivered while the store contains a lead whose contact detail is \<^verbatim>\<open>wx_123\<close> and no
  earlier lead of the store matches \<^verbatim>\<open>wx_123\<close>, correlation selects that lead and appends
  to it a new message with content ok, sender importer and status DELIVERED, and an
  activity-log entry whose description names the channel.
\<close>

theorem wechat_inbound:
  assumes "contactDetail lead = ''wx_123''" and "\<forall>i\<in>set pre. \<not> matches ''wx_123'' i"
  shows "onWebhookPayload ''WeChat'' (wechatPayload ''ok'' ''wx_123'') timestamp now (pre @ lead # post) =
           Inr (Some (id_imp lead),
                map (\<lambda>i. if id_imp i = id_imp lead
                          then withInbound ''WeChat'' ''ok'' timestamp now i else i)
                    (pre @ lead # post))
       \<and> chatHistory (withInbound ''WeChat'' ''ok'' timestamp now lead) =
           chatHistory lead @ [webhookMessage ''WeChat'' ''ok'' timestamp now]
       \<and> content (webhookMessage ''WeChat'' ''ok'' timestamp now) = ''ok''
       \<and> sender (webhookMessage ''WeChat'' ''ok'' timestamp now) = importer
       \<and> status_msg (webhookMessage ''WeChat'' ''ok'' timestamp now) = Some DELIVERED
       \<and> activityLog (withInbound ''WeChat'' ''ok'' timestamp now lead) =
           activityLog lead @ [webhookLog ''WeChat'' now]
       \<and> description (webhookLog ''WeChat'' now) = ''Incoming WeChat message''"
proof -
  have "matches ''wx_123'' lead"
    using assms(1) by (simp add: matches_def)
  with assms(2) have "find (matches ''wx_123'') (pre @ lead # post) = Some lead"
    by (rule find_first)
  then have "onWebhookPayload ''WeChat'' (wechatPayload ''ok'' ''wx_123'') timestamp now (pre @ lead # post) =
           Inr (Some (id_imp lead),
                map (\<lambda>i. if id_imp i = id_imp lead
                          then withInbound ''WeChat'' ''ok'' timestamp now i else i)
                    (pre @ lead # post))"
    by (intro handler_match) simp_all
  then show ?thesis
    by (simp add: withInbound_def webhookMessage_def webhookLog_def)
qed

theorem wechat_inbound_witness:
  "contactDetail (bareLead ''2'' ''wx_123'') = ''wx_123''
   \<and> \<not> matches ''wx_123'' (bareLead ''1'' ''+64 21 123 4567'')
   \<and> onWebhookPayload ''WeChat'' (wechatPayload ''ok'' ''wx_123'') (Some 5) 7
        [bareLead ''1'' ''+64 21 123 4567'', bareLead ''2'' ''wx_123''] =
        Inr (Some ''2'', [bareLead ''1'' ''+64 21 123 4567'',
                          withInbound ''WeChat'' ''ok'' (Some 5) 7 (bareLead ''2'' ''wx_123'')])"
proof -
  have c: "contactDetail (bareLead ''2'' ''wx_123'') = ''wx_123''"
    by (simp add: bareLead_def)
  have p: "\<forall>i\<in>set [bareLead ''1'' ''+64 21 123 4567'']. \<not> matches ''wx_123'' i"
    by (simp add: matches_def bareLead_def)
  show ?thesis
    using c p wechat_inbound [OF c p, of "Some 5" 7 "[]"]
    by (simp add: bareLead_def)
qed

text \<open>
  Claim C10, as stated, fails for an empty \<^verbatim>\<open>from\<close>: the content is the placeholder and
  the empty contact occurs in every contact detail, but the guard
  \<^verbatim>\<open>if (content && contact)\<close> drops the payload.
\<close>

theorem empty_from_counterexample:
  "matches [] (bareLead ''1'' ''+15558675309'')
   \<and> extractFields ''WhatsApp'' (whatsappPayload [(''from'', JStr [])]) =
        Inr (Some (JStr ''[Media]''), Some (JStr []))
   \<and> onWebhookPayload ''WhatsApp'' (whatsappPayload [(''from'', JStr [])]) (Some 5) 7
        [bareLead ''1'' ''+15558675309''] = Inr (None, [bareLead ''1'' ''+15558675309''])"
  by (simp add: onWebhookPayload_def extractFields_def matches_def bareLead_def)

text \<open>
  Claim C10, amended. For every WhatsApp payload whose message node
  \<^verbatim>\<open>entry[0].changes[0].value.messages[0]\<close> is an object with a non-empty string \<^verbatim>\<open>from\<close>
  and no text body, the extracted content is the literal string \<^verbatim>\<open>[Media]\<close>, and if the
  contact matches a lead, an inbound message with content \<^verbatim>\<open>[Media]\<close> is appended to the
  first lead that matches.
\<close>

theorem media_placeholder:
  assumes "whatsapp_msg payload = Some (JObj kvs)"
      and "opt_prop ''body'' (map_of kvs ''text'') = None"
      and "map_of kvs ''from'' = Some (JStr k)" and "k \<noteq> []"
  shows "extractFields ''WhatsApp'' payload = Inr (Some (JStr ''[Media]''), Some (JStr k))
       \<and> (\<forall>existing. find (matches k) prev = Some existing \<longrightarrow>
            onWebhookPayload ''WhatsApp'' payload timestamp now prev =
              Inr (Some (id_imp existing),
                   map (\<lambda>i. if id_imp i = id_imp existing
                             then withInbound ''WhatsApp'' ''[Media]'' timestamp now i else i) prev))
       \<and> content (webhookMessage ''WhatsApp'' ''[Media]'' timestamp now) = ''[Media]''"
proof -
  have e: "extractFields ''WhatsApp'' payload = Inr (Some (JStr ''[Media]''), Some (JStr k))"
    using assms(1-3) by (simp add: extractFields_def)
  have "onWebhookPayload ''WhatsApp'' payload timestamp now prev =
              Inr (Some (id_imp existing),
                   map (\<lambda>i. if id_imp i = id_imp existing
                             then withInbound ''WhatsApp'' ''[Media]'' timestamp now i else i) prev)"
    if "find (matches k) prev = Some existing" for existing
    using e _ assms(4) that by (rule handler_match) simp
  with e show ?thesis by (simp add: webhookMessage_def)
qed

theorem media_placeholder_witness:
  "whatsapp_msg (whatsappPayload [(''type'', JStr ''image''), (''from'', JStr ''15558675309'')])
     = Some (JObj [(''type'', JStr ''image''), (''from'', JStr ''15558675309'')])
   \<and> opt_prop ''body'' (map_of [(''type'', JStr ''image''), (''from'', JStr ''15558675309'')] ''text'') = None
   \<and> map_of [(''type'', JStr ''image''), (''from'', JStr ''15558675309'')] ''from'' = Some (JStr ''15558675309'')
   \<and> ''15558675309'' \<noteq> []
   \<and> find (matches ''15558675309'') [bareLead ''1'' ''+15558675309''] = Some (bareLead ''1'' ''+15558675309'')
   \<and> onWebhookPayload ''WhatsApp''
        (whatsappPayload [(''type'', JStr ''image''), (''from'', JStr ''15558675309'')]) (Some 5) 7
        [bareLead ''1'' ''+15558675309''] =
        Inr (Some ''1'', [withInbound ''WhatsApp'' ''[Media]'' (Some 5) 7 (bareLead ''1'' ''+15558675309'')])"
proof -
  have a: "whatsapp_msg (whatsappPayload [(''type'', JStr ''image''), (''from'', JStr ''15558675309'')])
     = Some (JObj [(''type'', JStr ''image''), (''from'', JStr ''15558675309'')])"
    by simp
  have b: "opt_prop ''body'' (map_of [(''type'', JStr ''image''), (''from'', JStr ''15558675309'')] ''text'') = None"
    by simp
  have c: "map_of [(''type'', JStr ''image''), (''from'', JStr ''15558675309'')] ''from'' = Some (JStr ''15558675309'')"
    by simp
  have d: "''15558675309'' \<noteq> []" by simp
  have f: "find (matches ''15558675309'') [bareLead ''1'' ''+15558675309''] = Some (bareLead ''1'' ''+15558675309'')"
    by (simp add: matches_def bareLead_def)
  show ?thesis
    using a b c d f media_placeholder [OF a b c d, of "[bareLead ''1'' ''+15558675309'']" "Some 5" 7]
    by (simp add: bareLead_def)
qed

text \<open>
  Claim C4 at a payload that correlates: the shell has an inbound-message handler
  registered, the lead is updated and its campaign enrollment stopped, and the service is
  the same as before, with nothing emitted. The listener never reaches
  \<^verbatim>\<open>incomingListener\<close>.
\<close>

theorem webhook_bypasses_notifier:
  "webhookReceived ''WeChat'' (wechatPayload ''ok'' ''wx_123'') (Some 5) 7
       (shell (onIncomingMessage 1 idle) [bareLead ''2'' ''wx_123''])
     = Inr ((shell (onIncomingMessage 1 idle)
               [withInbound ''WeChat'' ''ok'' (Some 5) 7 (bareLead ''2'' ''wx_123'')])
             \<lparr> stopEnrollment := [''2''] \<rparr>)
   \<and> incomingListener (onIncomingMessage 1 idle) = Some 1
   \<and> emitted (onIncomingMessage 1 idle) = []"
  by (simp add: webhookReceived_def onWebhookPayload_def webhookUpdate_def matches_def
      bareLead_def shell_def onIncomingMessage_def idle_def)

section \<open>Status updates on the store\<close>

text \<open>
  Claim C8. Applying a status update for \<open>messageId\<close>: if no lead holds a message with
  that id, the store is returned unchanged; in any case the result is the store in which
  each message with that id has its status field set and nothing else differs: every
  other message, every other field of a message and every other field of a lead are as
  before, and no lead or message is added, removed or reordered.
\<close>

theorem status_update_frame:
  "((\<forall>imp\<in>set prev. \<forall>m\<in>set (chatHistory imp). id_msg m \<noteq> messageId) \<longrightarrow>
      statusUpdateHandler messageId status prev = prev)
   \<and> statusUpdateHandler messageId status prev =
       map (\<lambda>imp. imp\<lparr> chatHistory :=
                         map (\<lambda>m. if id_msg m = messageId then m\<lparr> status_msg := Some status \<rparr> else m)
                             (chatHistory imp) \<rparr>) prev"
proof -
  have same: "map (\<lambda>m. if id_msg m = messageId then m\<lparr> status_msg := Some status \<rparr> else m) h = h"
    if "\<forall>m\<in>set h. id_msg m \<noteq> messageId" for h :: "Message list"
    using that by (induction h) auto
  have one: "(case find (\<lambda>m. id_msg m = messageId) (chatHistory imp) of
                  Some msgExists \<Rightarrow>
                    imp\<lparr> chatHistory :=
                           map (\<lambda>m. if id_msg m = messageId then m\<lparr> status_msg := Some status \<rparr> else m)
                               (chatHistory imp) \<rparr>
                | None \<Rightarrow> imp) =
             imp\<lparr> chatHistory :=
                           map (\<lambda>m. if id_msg m = messageId then m\<lparr> status_msg := Some status \<rparr> else m)
                               (chatHistory imp) \<rparr>" for imp :: "'a Importer_scheme"
  proof (cases "find (\<lambda>m. id_msg m = messageId) (chatHistory imp)")
    case None
    then have "\<forall>m\<in>set (chatHistory imp). id_msg m \<noteq> messageId"
      by (simp add: find_None_iff)
    then have "map (\<lambda>m. if id_msg m = messageId then m\<lparr> status_msg := Some status \<rparr> else m)
                 (chatHistory imp) = chatHistory imp"
      by (rule same)
    with None show ?thesis by simp
  next
    case (Some msgExists)
    then show ?thesis by simp
  qed
  have eq: "statusUpdateHandler messageId status prev =
       map (\<lambda>imp. imp\<lparr> chatHistory :=
                         map (\<lambda>m. if id_msg m = messageId then m\<lparr> status_msg := Some status \<rparr> else m)
                             (chatHistory imp) \<rparr>) prev"
    unfolding statusUpdateHandler_def by (simp only: one)
  have "statusUpdateHandler messageId status prev = prev"
    if "\<forall>imp\<in>set prev. \<forall>m\<in>set (chatHistory imp). id_msg m \<noteq> messageId"
    unfolding eq using that by (induction prev) (simp_all add: same)
  with eq show ?thesis by blast
qed

theorem status_update_frame_witness:
  "''m1'' \<noteq> ''1700000000000''
   \<and> statusUpdateHandler ''1700000000000'' DELIVERED
        [(bareLead ''2'' ''sarah.j@eurofoods.de'')
           \<lparr> chatHistory := [\<lparr> id_msg = ''m1'', content = ''Hi'', sender = agent,
                                timestamp_msg = 3, channel = EMAIL,
                                status_msg = Some READ, feedback = None \<rparr>] \<rparr>]
      = [(bareLead ''2'' ''sarah.j@eurofoods.de'')
           \<lparr> chatHistory := [\<lparr> id_msg = ''m1'', content = ''Hi'', sender = agent,
                                timestamp_msg = 3, channel = EMAIL,
                                status_msg = Some READ, feedback = None \<rparr>] \<rparr>]"
proof -
  have a: "\<forall>imp\<in>set [(bareLead ''2'' ''sarah.j@eurofoods.de'')
                    \<lparr> chatHistory := [\<lparr> id_msg = ''m1'', content = ''Hi'', sender = agent,
                                         timestamp_msg = 3, channel = EMAIL,
                                         status_msg = Some READ, feedback = None \<rparr>] \<rparr>].
       \<forall>m\<in>set (chatHistory imp). id_msg m \<noteq> ''1700000000000''"
    by simp
  show ?thesis
    using a status_update_frame [of "[(bareLead ''2'' ''sarah.j@eurofoods.de'')
           \<lparr> chatHistory := [\<lparr> id_msg = ''m1'', content = ''Hi'', sender = agent,
                                timestamp_msg = 3, channel = EMAIL,
                                status_msg = Some READ, feedback = None \<rparr>] \<rparr>]"
          "''1700000000000''" DELIVERED]
    by blast
qed

section \<open>Rejected sends\<close>

lemma deliver_same [simp]: "deliver now s s a = a"
  by (simp add: deliver_def)

lemma resume_rejected:
  assumes "r > 98 / 100" and "k < length (awaiting a)"
  shows "sendMessage_resume k r now a =
           a\<lparr> svc := svc a,
              importers :=
                map (\<lambda>i. if id_imp i = p_importer (awaiting a ! k)
                          then i\<lparr> chatHistory :=
                                   map (\<lambda>m. if id_msg m = p_msg (awaiting a ! k)
                                             then m\<lparr> status_msg := Some FAILED \<rparr> else m)
                                       (chatHistory i) \<rparr>
                          else i) (importers a),
              awaiting := take k (awaiting a) @ drop (Suc k) (awaiting a),
              alerts := alerts a @ [''Failed to send: Gateway Timeout''] \<rparr>"
  using assms by (simp add: sendMessage_resume_def sendMessage_def Let_def)

lemma begin_view:
  "svc (sendMessage_begin imp c ch now a) = svc a"
  "alerts (sendMessage_begin imp c ch now a) = alerts a"
  "awaiting (sendMessage_begin imp c ch now a) =
     awaiting a @ [\<lparr> p_msg = toString now, p_importer = id_imp imp, p_to = contactDetail imp,
                     p_content = c, p_channel = ch \<rparr>]"
  "importers (sendMessage_begin imp c ch now a) =
     snd (addMessage (id_imp imp) c agent (Some ch) (Some SENDING) now (importers a))"
  by (simp_all add: sendMessage_begin_def addMessage_def Let_def)

lemma same_ids: "(\<And>x. id_imp (f x) = id_imp x) \<Longrightarrow> map id_imp (map f xs) = map id_imp xs"
  by (induction xs) simp_all

text \<open>
  Claim C3. A send is rejected exactly when the draw of \<^verbatim>\<open>Math.random()\<close> exceeds 0.98,
  whatever the channel: of the draws in \<open>[0, 1)\<close> those are the top fiftieth, which is the
  2 percent of the claim for the uniform draw. A rejected send returns success false with
  error Gateway Timeout and leaves the service as it was: no status event for the message
  id or any other, no timer. The caller, the shell's \<^verbatim>\<open>sendMessage\<close>, then marks the
  message it had stored for the send as FAILED in the lead it was sent for, and alerts.
\<close>

theorem gateway_timeout:
  assumes "r > 98 / 100"
  shows "sendMessage messageId to' content' channel' r s =
           (\<lparr> success = False, error = Some ''Gateway Timeout'' \<rparr>, s)
       \<and> (\<forall>q. success (fst (sendMessage messageId to' content' channel' q s)) \<longleftrightarrow> \<not> q > 98 / 100)
       \<and> svc (sendMessage_App imp content' channel' now later r a) = svc a
       \<and> alerts (sendMessage_App imp content' channel' now later r a) =
           alerts a @ [''Failed to send: Gateway Timeout'']
       \<and> length (importers (sendMessage_App imp content' channel' now later r a)) = length (importers a)
       \<and> (\<forall>i\<in>set (importers (sendMessage_App imp content' channel' now later r a)).
             id_imp i = id_imp imp \<longrightarrow>
               (\<exists>m\<in>set (chatHistory i). id_msg m = toString now \<and> content m = content') \<and>
               (\<forall>m\<in>set (chatHistory i). id_msg m = toString now \<longrightarrow> status_msg m = Some FAILED))
       \<and> map id_imp (importers (sendMessage_App imp content' channel' now later r a)) =
           map id_imp (importers a)"
proof -
  let ?b = "sendMessage_begin imp content' channel' now a"
  have k: "length (awaiting a) < length (awaiting ?b)" by (simp add: begin_view)
  have nth: "awaiting ?b ! length (awaiting a) =
      \<lparr> p_msg = toString now, p_importer = id_imp imp, p_to = contactDetail imp,
        p_content = content', p_channel = channel' \<rparr>"
    by (simp add: begin_view)
  note r = resume_rejected[OF assms k, of later, unfolded nth]
  have 1: "sendMessage messageId to' content' channel' r s =
           (\<lparr> success = False, error = Some ''Gateway Timeout'' \<rparr>, s)"
    using assms by (simp add: sendMessage_def)
  have 2: "\<forall>q. success (fst (sendMessage messageId to' content' channel' q s)) \<longleftrightarrow> \<not> q > 98 / 100"
    by (simp add: sendMessage_def)
  have 3: "svc (sendMessage_App imp content' channel' now later r a) = svc a"
    unfolding sendMessage_App_def r by (simp add: begin_view)
  have 4: "alerts (sendMessage_App imp content' channel' now later r a) =
           alerts a @ [''Failed to send: Gateway Timeout'']"
    unfolding sendMessage_App_def r by (simp add: begin_view)
  have st: "importers (sendMessage_App imp content' channel' now later r a) =
      map (\<lambda>i. if id_imp i = id_imp imp
                then i\<lparr> chatHistory := map (\<lambda>m. if id_msg m = toString now
                                             then m\<lparr> status_msg := Some FAILED \<rparr> else m)
                                       (chatHistory i) \<rparr>
                else i) 
        (snd (addMessage (id_imp imp) content' agent (Some channel') (Some SENDING) now (importers a)))"
    unfolding sendMessage_App_def r by (simp add: begin_view)
  have 5: "length (importers (sendMessage_App imp content' channel' now later r a)) = length (importers a)"
    unfolding st by (simp add: addMessage_def Let_def)
  have 6: "\<forall>i\<in>set (importers (sendMessage_App imp content' channel' now later r a)).
             id_imp i = id_imp imp \<longrightarrow>
               (\<exists>m\<in>set (chatHistory i). id_msg m = toString now \<and> content m = content') \<and>
               (\<forall>m\<in>set (chatHistory i). id_msg m = toString now \<longrightarrow> status_msg m = Some FAILED)"
    unfolding st by (auto simp: addMessage_def Let_def)
  have 7: "map id_imp (importers (sendMessage_App imp content' channel' now later r a)) =
           map id_imp (importers a)"
    unfolding st by (simp add: addMessage_def Let_def same_ids)
  from 1 2 3 4 5 6 7 show ?thesis by blast
qed

theorem gateway_timeout_witness:
  "(99 / 100 :: rat) > 98 / 100
   \<and> sendMessage ''7'' ''wx_123'' ''hello'' WECHAT (99 / 100) idle =
        (\<lparr> success = False, error = Some ''Gateway Timeout'' \<rparr>, idle)
   \<and> svc (sendMessage_App (bareLead ''1'' ''wx_123'') ''hello'' WECHAT 7 8 (99 / 100)
            (shell idle [bareLead ''1'' ''wx_123''])) = idle
   \<and> alerts (sendMessage_App (bareLead ''1'' ''wx_123'') ''hello'' WECHAT 7 8 (99 / 100)
            (shell idle [bareLead ''1'' ''wx_123''])) = [''Failed to send: Gateway Timeout'']
   \<and> map (\<lambda>i. map (\<lambda>m. (id_msg m, status_msg m)) (chatHistory i))
         (importers (sendMessage_App (bareLead ''1'' ''wx_123'') ''hello'' WECHAT 7 8 (99 / 100)
            (shell idle [bareLead ''1'' ''wx_123'']))) = [[(''7'', Some FAILED)]]"
proof -
  have r: "(99 / 100 :: rat) > 98 / 100" by simp
  have m: "map (\<lambda>i. map (\<lambda>m. (id_msg m, status_msg m)) (chatHistory i))
         (importers (sendMessage_App (bareLead ''1'' ''wx_123'') ''hello'' WECHAT 7 8 (99 / 100)
            (shell idle [bareLead ''1'' ''wx_123'']))) = [[(''7'', Some FAILED)]]"
    by (simp add: sendMessage_App_def sendMessage_begin_def sendMessage_resume_def
        sendMessage_def addMessage_def shell_def bareLead_def Let_def toString.simps digit_def)
  show ?thesis
    using r m gateway_timeout [OF r, where messageId = "''7''" and to' = "''wx_123''"
        and content' = "''hello''" and channel' = WECHAT and s = idle
        and imp = "bareLead ''1'' ''wx_123''" and now = 7 and later = 8
        and a = "shell idle [bareLead ''1'' ''wx_123'']"]
    by (simp add: shell_def)
qed

section \<open>Handler registration\<close>

text \<open>
  Claim C7. For each of the three kinds of event, registering a handler overwrites the
  slot: the state after registering \<open>h1\<close> and then \<open>h2\<close> is the state after registering
  \<open>h2\<close> alone, so one handler per kind is active and an emission that follows goes to
  \<open>h2\<close> only. While the slot of a kind is empty an emission of that kind calls nothing
  and changes nothing in the module: no listener, no timer, and a handler registered
  afterwards is not called for it.
\<close>

theorem single_subscriber:
  "onMessageStatusUpdate h2 (onMessageStatusUpdate h1 s) = onMessageStatusUpdate h2 s
   \<and> onTypingStatus h2 (onTypingStatus h1 s) = onTypingStatus h2 s
   \<and> onIncomingMessage h2 (onIncomingMessage h1 s) = onIncomingMessage h2 s
   \<and> emitted (emitStatus m st (onMessageStatusUpdate h2 (onMessageStatusUpdate h1 s))) =
       emitted s @ [(Some h2, StatusUpdate m st)]
   \<and> emitted (emitTyping i b (onTypingStatus h2 (onTypingStatus h1 s))) =
       emitted s @ [(Some h2, TypingStatus i b)]
   \<and> emitted (emitIncoming i' k c ch (onIncomingMessage h2 (onIncomingMessage h1 s))) =
       emitted s @ [(Some h2, IncomingMessage i' k c ch)]
   \<and> (statusListener s = None \<longrightarrow>
        received (emitted (emitStatus m st s)) = received (emitted s) \<and>
        received (emitted (onMessageStatusUpdate h (emitStatus m st s))) = received (emitted s) \<and>
        (emitStatus m st s)\<lparr> emitted := emitted s \<rparr> = s)
   \<and> (typingListener s = None \<longrightarrow>
        received (emitted (emitTyping i b s)) = received (emitted s) \<and>
        received (emitted (onTypingStatus h (emitTyping i b s))) = received (emitted s) \<and>
        (emitTyping i b s)\<lparr> emitted := emitted s \<rparr> = s)
   \<and> (incomingListener s = None \<longrightarrow>
        received (emitted (emitIncoming i' k c ch s)) = received (emitted s) \<and>
        received (emitted (onIncomingMessage h (emitIncoming i' k c ch s))) = received (emitted s) \<and>
        (emitIncoming i' k c ch s)\<lparr> emitted := emitted s \<rparr> = s)"
  by (simp add: onMessageStatusUpdate_def onTypingStatus_def onIncomingMessage_def
      emitStatus_def emitTyping_def emitIncoming_def received_def)

theorem single_subscriber_witness:
  "statusListener idle = None
   \<and> received (emitted (emitStatus ''m1'' SENT idle)) = []
   \<and> received (emitted (onMessageStatusUpdate 3 (emitStatus ''m1'' SENT idle))) = []
   \<and> emitted (emitStatus ''m1'' SENT (onMessageStatusUpdate 2 (onMessageStatusUpdate 1 idle))) =
        [(Some 2, StatusUpdate ''m1'' SENT)]"
proof -
  have n: "statusListener idle = None" "typingListener idle = None" "incomingListener idle = None"
    "emitted idle = []"
    by (simp_all add: idle_def)
  show ?thesis
    using n single_subscriber [where s = idle and ?h1.0 = 1 and ?h2.0 = 2 and h = 3
        and m = "''m1''" and st = SENT and i = "''1''" and b = True and i' = None
        and k = "''unknown-contact''" and c = "''ok''" and ch = WECHAT]
    by (simp add: received_def onMessageStatusUpdate_def emitStatus_def)
qed

section \<open>The status of a stored message never moves backwards\<close>

subsection \<open>Steps of messages, histories and stores\<close>

lemma advances_refl [simp]: "advances s s"
  by (cases s) simp_all

lemma msg_step_refl [simp]: "msg_step m m"
  by (simp add: msg_step_def)

lemma msg_step_stamp:
  assumes "l \<noteq> None \<Longrightarrow> id_msg m = x \<Longrightarrow> advances (status_msg m) (Some st)"
  shows "msg_step m (stamp l x st m)"
  using assms by (simp add: msg_step_def stamp_def)

lemma history_step_map_append:
  assumes "\<forall>m\<in>set h. msg_step m (g m)"
  shows "history_step h (map g h @ ext)"
  using assms by (simp add: history_step_def list_all2_map2 list_all2_same)

lemma store_step_map:
  assumes "\<forall>i\<in>set prev. id_imp (f i) = id_imp i \<and> history_step (chatHistory i) (chatHistory (f i))"
  shows "store_step prev (map f prev)"
  using assms by (simp add: store_step_def list_all2_map2 list_all2_same)

lemma store_step_refl [simp]: "store_step prev prev"
  using store_step_map[of prev "\<lambda>i. i"] history_step_map_append[of _ "\<lambda>m. m" "[]"]
  by simp

lemma allMessages_map:
  "set (allMessages (map f prev)) = (\<Union>i\<in>set prev. set (chatHistory (f i)))"
  by (simp add: allMessages_def)

lemma allMessages_mem: "i \<in> set prev \<Longrightarrow> m \<in> set (chatHistory i) \<Longrightarrow> m \<in> set (allMessages prev)"
  by (auto simp: allMessages_def)

subsection \<open>What a status emission does to the store\<close>

lemma stamp_none [simp]: "stamp None x st = (\<lambda>m. m)"
  by (rule ext) (simp add: stamp_def)

lemma map_stamp_absent:
  assumes "\<forall>m\<in>set h. id_msg m \<noteq> x"
  shows "map (stamp l x st) h = h"
  using assms by (induction h) (simp_all add: stamp_def)

lemma statusUpdateHandler_map:
  "statusUpdateHandler x st prev =
     map (\<lambda>imp. imp\<lparr> chatHistory := map (stamp (Some h) x st) (chatHistory imp) \<rparr>) prev"
proof -
  have one: "(case find (\<lambda>m. id_msg m = x) (chatHistory imp) of
                  Some msgExists \<Rightarrow>
                    imp\<lparr> chatHistory :=
                           map (\<lambda>m. if id_msg m = x then m\<lparr> status_msg := Some st \<rparr> else m)
                               (chatHistory imp) \<rparr>
                | None \<Rightarrow> imp) =
             imp\<lparr> chatHistory := map (stamp (Some h) x st) (chatHistory imp) \<rparr>"
    for imp :: "'a Importer_scheme"
  proof (cases "find (\<lambda>m. id_msg m = x) (chatHistory imp)")
    case None
    then have "\<forall>m\<in>set (chatHistory imp). id_msg m \<noteq> x"
      by (simp add: find_None_iff)
    then have "map (stamp (Some h) x st) (chatHistory imp) = chatHistory imp"
      by (rule map_stamp_absent)
    with None show ?thesis by simp
  next
    case (Some msgExists)
    have "(\<lambda>m. if id_msg m = x then m\<lparr> status_msg := Some st \<rparr> else m) = stamp (Some h) x st"
      by (auto simp: stamp_def)
    with Some show ?thesis by simp
  qed
  show ?thesis unfolding statusUpdateHandler_def by (simp only: one)
qed

lemma deliver_status:
  assumes "emitted s' = emitted s @ [(l, StatusUpdate x st)]"
  shows "deliver now s s' a =
           a\<lparr> importers :=
                map (\<lambda>imp. imp\<lparr> chatHistory := map (stamp l x st) (chatHistory imp) \<rparr>) (importers a) \<rparr>"
proof (cases l)
  case None
  then show ?thesis using assms by (simp add: deliver_def)
next
  case (Some h)
  then show ?thesis using assms statusUpdateHandler_map[of x st "importers a" h]
    by (simp add: deliver_def)
qed

lemma deliver_typing:
  assumes "emitted s' = emitted s @ [(l, TypingStatus i b)]"
  shows "importers (deliver now s s' a) = importers a"
    and "awaiting (deliver now s s' a) = awaiting a"
    and "svc (deliver now s s' a) = svc a"
  using assms by (cases l; simp add: deliver_def)+

lemma deliver_reply:
  assumes "emitted s' = emitted s @ [(l, TypingStatus i b), (l', IncomingMessage i' c t ch)]"
  shows "deliver now s s' a =
           appHandlers now (l', IncomingMessage i' c t ch) (appHandlers now (l, TypingStatus i b) a)"
  using assms by (simp add: deliver_def)

subsection \<open>The ids in flight when a timer leaves the list\<close>

lemma deliveryIds_append [simp]: "deliveryIds (xs @ ys) = deliveryIds xs @ deliveryIds ys"
  by (induction xs rule: deliveryIds.induct) simp_all

lemma readIds_append [simp]: "readIds (xs @ ys) = readIds xs @ readIds ys"
  by (induction xs rule: readIds.induct) simp_all

lemma toString_not_empty: "toString n \<noteq> []"
  by (subst toString.simps) simp

lemma digit_not_w: "d < 10 \<Longrightarrow> digit d \<noteq> CHR ''w''"
proof -
  assume "d < 10"
  then have "d \<in> {0, 1, 2, 3, 4, 5, 6, 7, 8, 9}" by auto
  then show ?thesis by (auto simp: digit_def)
qed

lemma toString_hd: "hd (toString n) \<noteq> CHR ''w''"
proof (induction n rule: toString.induct)
  case (1 n)
  show ?case
  proof (cases "n < 10")
    case True
    then show ?thesis by (subst toString.simps) (simp add: digit_not_w)
  next
    case False
    then have "hd (toString n) = hd (toString (n div 10))"
      by (subst toString.simps) (simp add: toString_not_empty)
    with 1 False show ?thesis by simp
  qed
qed

lemma toString_not_wh: "toString n \<noteq> ''wh-'' @ s"
  using toString_hd[of n] by auto


subsection \<open>Two shapes of store update\<close>

lemma history_step_append: "history_step h (h @ ext)"
  using history_step_map_append[of h "\<lambda>m. m" ext] by simp

lemma history_step_same [simp]: "history_step h h"
  using history_step_append[of h "[]"] by simp

lemma extended_store:
  assumes "\<forall>i\<in>set prev. id_imp (f i) = id_imp i \<and>
             (chatHistory (f i) = chatHistory i \<or> chatHistory (f i) = chatHistory i @ [x])"
  shows "store_step prev (map f prev)"
    and "set (allMessages (map f prev)) \<subseteq> insert x (set (allMessages prev))"
proof -
  have "history_step (chatHistory i) (chatHistory (f i))" if "i \<in> set prev" for i
    using assms that history_step_append[of "chatHistory i" "[x]"] by auto
  with assms show "store_step prev (map f prev)"
    by (intro store_step_map) simp
  show "set (allMessages (map f prev)) \<subseteq> insert x (set (allMessages prev))"
    unfolding allMessages_map using assms by (auto simp: allMessages_def)
qed

lemma stamped_store:
  assumes "\<forall>i\<in>set prev. id_imp (f i) = id_imp i \<and>
             (chatHistory (f i) = chatHistory i \<or>
              chatHistory (f i) = map (stamp l x st) (chatHistory i))"
      and "\<forall>m\<in>set (allMessages prev). l \<noteq> None \<longrightarrow> id_msg m = x \<longrightarrow> advances (status_msg m) (Some st)"
  shows "store_step prev (map f prev)"
    and "set (allMessages (map f prev)) \<subseteq> set (allMessages prev) \<union> stamp l x st ` set (allMessages prev)"
proof -
  have "history_step (chatHistory i) (chatHistory (f i))" if i: "i \<in> set prev" for i
  proof -
    have s: "\<forall>m\<in>set (chatHistory i). msg_step m (stamp l x st m)"
      using assms(2) i by (auto intro!: msg_step_stamp dest: allMessages_mem)
    from assms(1) i have "chatHistory (f i) = chatHistory i
        \<or> chatHistory (f i) = map (stamp l x st) (chatHistory i) @ []"
      by simp
    then show ?thesis
      using history_step_map_append[OF s, of "[]"] by auto
  qed
  with assms show "store_step prev (map f prev)"
    by (intro store_step_map) simp
  show "set (allMessages (map f prev)) \<subseteq> set (allMessages prev) \<union> stamp l x st ` set (allMessages prev)"
    unfolding allMessages_map using assms(1) by (fastforce simp: allMessages_def)
qed

subsection \<open>The operations of the shell, seen from the store and the ids in flight\<close>

lemma addMessage_view:
  "id_msg (fst (addMessage L c sd co st now prev)) = toString now"
  "status_msg (fst (addMessage L c sd co st now prev)) = st"
  "\<exists>f. snd (addMessage L c sd co st now prev) = map f prev \<and>
       (\<forall>i. id_imp (f i) = id_imp i \<and>
            (chatHistory (f i) = chatHistory i \<or>
             chatHistory (f i) = chatHistory i @ [fst (addMessage L c sd co st now prev)]))"
proof -
  show "id_msg (fst (addMessage L c sd co st now prev)) = toString now"
    and "status_msg (fst (addMessage L c sd co st now prev)) = st"
    by (simp_all add: addMessage_def Let_def)
  let ?x = "fst (addMessage L c sd co st now prev)"
  obtain f where f: "snd (addMessage L c sd co st now prev) = map f prev"
    and f_def: "f = (\<lambda>imp. if id_imp imp \<noteq> L then imp
                      else imp\<lparr> chatHistory := chatHistory imp @ [?x],
                                activityLog := activityLog imp @
                                    (if sd = agent then [\<lparr> id_log = ''msg-'' @ id_msg ?x, timestamp_log = now,
                             type_log = ''system'',
                             description = ''Outbound via '' @ channelValue co \<rparr>]
                                     else if sd = importer then [\<lparr> id_log = ''msg-'' @ id_msg ?x, timestamp_log = now,
                             type_log = ''system'',
                             description = ''Inbound via '' @ channelValue co \<rparr>]
                                     else []),
                                lastContacted := Some now \<rparr>)"
    by (simp add: addMessage_def Let_def)
  have "\<forall>i. id_imp (f i) = id_imp i \<and>
            (chatHistory (f i) = chatHistory i \<or> chatHistory (f i) = chatHistory i @ [?x])"
    by (simp add: f_def)
  with f show "\<exists>f. snd (addMessage L c sd co st now prev) = map f prev \<and>
       (\<forall>i. id_imp (f i) = id_imp i \<and>
            (chatHistory (f i) = chatHistory i \<or>
             chatHistory (f i) = chatHistory i @ [fst (addMessage L c sd co st now prev)]))"
    by blast
qed

lemma webhookUpdate_view:
  "\<exists>f. snd (webhookUpdate ch c k ts now prev) = map f prev \<and>
       (\<forall>i. id_imp (f i) = id_imp i \<and>
            (chatHistory (f i) = chatHistory i \<or>
             chatHistory (f i) = chatHistory i @ [webhookMessage ch c ts now]))"
proof (cases "find (matches k) prev")
  case None
  then have "snd (webhookUpdate ch c k ts now prev) = map (\<lambda>i. i) prev"
    by (simp add: webhookUpdate_def)
  then show ?thesis by blast
next
  case (Some existing)
  let ?f = "\<lambda>i. if id_imp i = id_imp existing then withInbound ch c ts now i else i"
  have "snd (webhookUpdate ch c k ts now prev) = map ?f prev"
    using Some by (simp add: webhookUpdate_def)
  moreover have "\<forall>i. id_imp (?f i) = id_imp i \<and>
            (chatHistory (?f i) = chatHistory i \<or>
             chatHistory (?f i) = chatHistory i @ [webhookMessage ch c ts now])"
    by (simp add: withInbound_def)
  ultimately show ?thesis by blast
qed

lemma onWebhookPayload_view:
  assumes "onWebhookPayload ch payload ts now prev = Inr (stop, new)"
  shows "\<exists>f c. new = map f prev \<and>
       (\<forall>i. id_imp (f i) = id_imp i \<and>
            (chatHistory (f i) = chatHistory i \<or>
             chatHistory (f i) = chatHistory i @ [webhookMessage ch c ts now]))"
proof -
  have id: "\<exists>f c. prev = map f prev \<and>
       (\<forall>i. id_imp (f i) = id_imp i \<and>
            (chatHistory (f i) = chatHistory i \<or>
             chatHistory (f i) = chatHistory i @ [webhookMessage ch c ts now]))"
    by (rule exI[of _ "\<lambda>i. i"]) simp
  from assms have "new = prev \<or> (\<exists>c k. new = snd (webhookUpdate ch c k ts now prev))"
    by (auto simp: onWebhookPayload_def
        split: sum.splits prod.splits if_splits option.splits json.splits)
       (metis snd_conv)+
  then consider (same) "new = prev" | (upd) c k where "new = snd (webhookUpdate ch c k ts now prev)"
    by blast
  then show ?thesis
  proof cases
    case same
    then show ?thesis using id by simp
  next
    case upd
    then show ?thesis using webhookUpdate_view[of ch c k ts now prev] by blast
  qed
qed


lemma resume_accepted:
  assumes "\<not> r > 98 / 100" and "k < length (awaiting a)"
  shows "sendMessage_resume k r now a =
           a\<lparr> svc := setTimeout (Delivery (p_msg (awaiting a ! k)))
                      (deliveryDelay (p_channel (awaiting a ! k)))
                      (emitStatus (p_msg (awaiting a ! k)) SENT (svc a)),
              awaiting := take k (awaiting a) @ drop (Suc k) (awaiting a),
              importers :=
                map (\<lambda>imp. imp\<lparr> chatHistory :=
                       map (stamp (statusListener (svc a)) (p_msg (awaiting a ! k)) SENT)
                           (chatHistory imp) \<rparr>) (importers a) \<rparr>"
proof -
  let ?x = "p_msg (awaiting a ! k)"
  let ?s' = "setTimeout (Delivery ?x) (deliveryDelay (p_channel (awaiting a ! k)))
               (emitStatus ?x SENT (svc a))"
  let ?a1 = "a\<lparr> svc := ?s', awaiting := take k (awaiting a) @ drop (Suc k) (awaiting a) \<rparr>"
  have "emitted ?s' = emitted (svc a) @ [(statusListener (svc a), StatusUpdate ?x SENT)]"
    by (simp add: emitStatus_def)
  then have "deliver now (svc a) ?s' ?a1 =
      ?a1\<lparr> importers :=
        map (\<lambda>imp. imp\<lparr> chatHistory := map (stamp (statusListener (svc a)) ?x SENT) (chatHistory imp) \<rparr>)
          (importers ?a1) \<rparr>"
    by (rule deliver_status)
  then show ?thesis
    using assms by (simp add: sendMessage_resume_def sendMessage_def Let_def)
qed

lemma timerFires_delivery:
  assumes "k < length (timers (svc a))" and "timers (svc a) ! k = (d, Delivery x)"
  shows "importers (timerFires k r2 r3 now a) =
           map (\<lambda>imp. imp\<lparr> chatHistory :=
                  map (stamp (statusListener (svc a)) x DELIVERED) (chatHistory imp) \<rparr>) (importers a)"
    and "awaiting (timerFires k r2 r3 now a) = awaiting a"
    and "timers (svc (timerFires k r2 r3 now a)) =
           take k (timers (svc a)) @ drop (Suc k) (timers (svc a)) @
             (if r2 > 3 / 10 then [(2000 + r3 * 4000, ReadReceipt x)] else [])"
proof -
  let ?a1 = "a\<lparr> svc := fire k r2 r3 (svc a) \<rparr>"
  have "emitted (fire k r2 r3 (svc a)) =
          emitted (svc a) @ [(statusListener (svc a), StatusUpdate x DELIVERED)]"
    using assms by (simp add: fire_def emitStatus_def setTimeout_def Let_def)
  then have d: "deliver now (svc a) (fire k r2 r3 (svc a)) ?a1 =
      ?a1\<lparr> importers :=
        map (\<lambda>imp. imp\<lparr> chatHistory := map (stamp (statusListener (svc a)) x DELIVERED) (chatHistory imp) \<rparr>)
          (importers ?a1) \<rparr>"
    by (rule deliver_status)
  show "importers (timerFires k r2 r3 now a) =
           map (\<lambda>imp. imp\<lparr> chatHistory :=
                  map (stamp (statusListener (svc a)) x DELIVERED) (chatHistory imp) \<rparr>) (importers a)"
    and "awaiting (timerFires k r2 r3 now a) = awaiting a"
    by (simp_all add: timerFires_def Let_def d)
  show "timers (svc (timerFires k r2 r3 now a)) =
           take k (timers (svc a)) @ drop (Suc k) (timers (svc a)) @
             (if r2 > 3 / 10 then [(2000 + r3 * 4000, ReadReceipt x)] else [])"
    using assms by (simp add: timerFires_def Let_def d) (simp add: fire_def emitStatus_def setTimeout_def Let_def)
qed

lemma timerFires_read:
  assumes "k < length (timers (svc a))" and "timers (svc a) ! k = (d, ReadReceipt x)"
  shows "importers (timerFires k r2 r3 now a) =
           map (\<lambda>imp. imp\<lparr> chatHistory :=
                  map (stamp (statusListener (svc a)) x READ) (chatHistory imp) \<rparr>) (importers a)"
    and "awaiting (timerFires k r2 r3 now a) = awaiting a"
    and "timers (svc (timerFires k r2 r3 now a)) =
           take k (timers (svc a)) @ drop (Suc k) (timers (svc a))"
proof -
  let ?a1 = "a\<lparr> svc := fire k r2 r3 (svc a) \<rparr>"
  have "emitted (fire k r2 r3 (svc a)) =
          emitted (svc a) @ [(statusListener (svc a), StatusUpdate x READ)]"
    using assms by (simp add: fire_def emitStatus_def)
  then have d: "deliver now (svc a) (fire k r2 r3 (svc a)) ?a1 =
      ?a1\<lparr> importers :=
        map (\<lambda>imp. imp\<lparr> chatHistory := map (stamp (statusListener (svc a)) x READ) (chatHistory imp) \<rparr>)
          (importers ?a1) \<rparr>"
    by (rule deliver_status)
  show "importers (timerFires k r2 r3 now a) =
           map (\<lambda>imp. imp\<lparr> chatHistory :=
                  map (stamp (statusListener (svc a)) x READ) (chatHistory imp) \<rparr>) (importers a)"
    and "awaiting (timerFires k r2 r3 now a) = awaiting a"
    by (simp_all add: timerFires_def Let_def d)
  show "timers (svc (timerFires k r2 r3 now a)) =
           take k (timers (svc a)) @ drop (Suc k) (timers (svc a))"
    using assms by (simp add: timerFires_def Let_def d) (simp add: fire_def emitStatus_def)
qed

lemma incomingHandler_view:
  "svc (incomingHandler i' c t ch now a) = svc a"
  "awaiting (incomingHandler i' c t ch now a) = awaiting a"
  "\<exists>f x. importers (incomingHandler i' c t ch now a) = map f (importers a) \<and>
       id_msg x = toString now \<and>
       (\<forall>i. id_imp (f i) = id_imp i \<and>
            (chatHistory (f i) = chatHistory i \<or> chatHistory (f i) = chatHistory i @ [x]))"
proof -
  show "svc (incomingHandler i' c t ch now a) = svc a"
    and "awaiting (incomingHandler i' c t ch now a) = awaiting a"
    by (simp_all add: incomingHandler_def Let_def split: option.splits)
  let ?target = "if nonEmpty i' then i' else selectedId a"
  have same: "\<exists>f x. importers a = map f (importers a) \<and> id_msg x = toString now \<and>
       (\<forall>i. id_imp (f i) = id_imp i \<and>
            (chatHistory (f i) = chatHistory i \<or> chatHistory (f i) = chatHistory i @ [x]))"
    by (rule exI[of _ "\<lambda>i. i"], rule exI[of _ "fst (addMessage [] c importer (Some ch) None now (importers a))"])
       (simp add: addMessage_view)
  show "\<exists>f x. importers (incomingHandler i' c t ch now a) = map f (importers a) \<and>
       id_msg x = toString now \<and>
       (\<forall>i. id_imp (f i) = id_imp i \<and>
            (chatHistory (f i) = chatHistory i \<or> chatHistory (f i) = chatHistory i @ [x]))"
  proof (cases "\<exists>y. ?target = Some y \<and> y \<noteq> []")
    case False
    then have "importers (incomingHandler i' c t ch now a) = importers a"
      by (auto simp: incomingHandler_def Let_def split: option.splits)
    then show ?thesis using same by simp
  next
    case True
    then obtain y where y: "?target = Some y" "y \<noteq> []" by blast
    then have imp: "importers (incomingHandler i' c t ch now a) =
        snd (addMessage y t importer (Some ch) None now (importers a))"
      by (simp add: incomingHandler_def Let_def)
    from addMessage_view(3)[of y t importer "Some ch" None now "importers a"]
    obtain f where "snd (addMessage y t importer (Some ch) None now (importers a)) = map f (importers a)"
      and "\<forall>i. id_imp (f i) = id_imp i \<and>
            (chatHistory (f i) = chatHistory i \<or>
             chatHistory (f i) = chatHistory i @ [fst (addMessage y t importer (Some ch) None now (importers a))])"
      by blast
    then show ?thesis unfolding imp
      using addMessage_view(1)[of y t importer "Some ch" None now "importers a"] by blast
  qed
qed

lemma timerFires_reply:
  assumes "k < length (timers (svc a))" and "timers (svc a) ! k = (d, Reply i c ch)"
  shows "\<exists>f x. importers (timerFires k r2 r3 now a) = map f (importers a) \<and>
           id_msg x = toString now \<and>
           (\<forall>j. id_imp (f j) = id_imp j \<and>
                (chatHistory (f j) = chatHistory j \<or> chatHistory (f j) = chatHistory j @ [x]))"
    and "awaiting (timerFires k r2 r3 now a) = awaiting a"
    and "timers (svc (timerFires k r2 r3 now a)) =
           take k (timers (svc a)) @ drop (Suc k) (timers (svc a))"
proof -
  let ?a1 = "a\<lparr> svc := fire k r2 r3 (svc a) \<rparr>"
  let ?ty = "(typingListener (svc a), TypingStatus i False)"
  let ?inc = "(incomingListener (svc a), IncomingMessage (Some i) ''unknown-contact'' c ch)"
  have tm: "timers (fire k r2 r3 (svc a)) = take k (timers (svc a)) @ drop (Suc k) (timers (svc a))"
    using assms by (simp add: fire_def emitTyping_def emitIncoming_def)
  have "emitted (fire k r2 r3 (svc a)) = emitted (svc a) @ [?ty, ?inc]"
    using assms by (simp add: fire_def emitTyping_def emitIncoming_def)
  then have d: "timerFires k r2 r3 now a = appHandlers now ?inc (appHandlers now ?ty ?a1)"
    unfolding timerFires_def Let_def by (rule deliver_reply)
  let ?a2 = "appHandlers now ?ty ?a1"
  have a2: "importers ?a2 = importers a" "awaiting ?a2 = awaiting a" "svc ?a2 = fire k r2 r3 (svc a)"
    by (cases "typingListener (svc a)"; simp)+
  have same: "\<exists>f x. importers a = map f (importers a) \<and> id_msg x = toString now \<and>
       (\<forall>j. id_imp (f j) = id_imp j \<and>
            (chatHistory (f j) = chatHistory j \<or> chatHistory (f j) = chatHistory j @ [x]))"
    by (rule exI[of _ "\<lambda>i. i"], rule exI[of _ "fst (addMessage [] c importer (Some ch) None now (importers a))"])
       (simp add: addMessage_view)
  show "\<exists>f x. importers (timerFires k r2 r3 now a) = map f (importers a) \<and>
           id_msg x = toString now \<and>
           (\<forall>j. id_imp (f j) = id_imp j \<and>
                (chatHistory (f j) = chatHistory j \<or> chatHistory (f j) = chatHistory j @ [x]))"
  proof (cases "incomingListener (svc a)")
    case None
    then show ?thesis unfolding d using a2 same by simp
  next
    case (Some h)
    then show ?thesis unfolding d
      using incomingHandler_view(3)[of "Some i" "''unknown-contact''" c ch now ?a2] a2 by simp
  qed
  show "awaiting (timerFires k r2 r3 now a) = awaiting a"
    unfolding d using a2 by (cases "incomingListener (svc a)") (simp_all add: incomingHandler_view)
  show "timers (svc (timerFires k r2 r3 now a)) =
           take k (timers (svc a)) @ drop (Suc k) (timers (svc a))"
    unfolding d using a2 tm by (cases "incomingListener (svc a)") (simp_all add: incomingHandler_view)
qed

lemma timerFires_idle:
  assumes "\<not> k < length (timers (svc a))"
  shows "timerFires k r2 r3 now a = a"
  using assms by (simp add: timerFires_def fire_def Let_def)

lemma mockReply_view:
  "importers (mockReply i c ch now a) = importers a"
  "awaiting (mockReply i c ch now a) = awaiting a"
  "timers (svc (mockReply i c ch now a)) =
     timers (svc a) @ [(of_nat (min (1000 + length c * 30) 4000), Reply i c ch)]"
proof -
  let ?s' = "receiveMockReply i c ch (svc a)"
  have e: "emitted ?s' = emitted (svc a) @ [(typingListener (svc a), TypingStatus i True)]"
    by (simp add: receiveMockReply_def emitTyping_def setTimeout_def)
  note v = deliver_typing[OF e, of now "a\<lparr> svc := ?s' \<rparr>"]
  show "importers (mockReply i c ch now a) = importers a"
    and "awaiting (mockReply i c ch now a) = awaiting a"
    using v by (simp_all add: mockReply_def Let_def)
  show "timers (svc (mockReply i c ch now a)) =
     timers (svc a) @ [(of_nat (min (1000 + length c * 30) 4000), Reply i c ch)]"
    using v by (simp add: mockReply_def Let_def) (simp add: receiveMockReply_def emitTyping_def setTimeout_def)
qed

lemma analysisReturns_view:
  "svc (analysisReturns k st rest now a) = svc a"
  "awaiting (analysisReturns k st rest now a) = awaiting a"
  "\<exists>f. importers (analysisReturns k st rest now a) = map f (importers a) \<and>
       (\<forall>i. id_imp (f i) = id_imp i \<and> chatHistory (f i) = chatHistory i)"
proof -
  show "svc (analysisReturns k st rest now a) = svc a"
    and "awaiting (analysisReturns k st rest now a) = awaiting a"
    by (simp_all add: analysisReturns_def)
  show "\<exists>f. importers (analysisReturns k st rest now a) = map f (importers a) \<and>
       (\<forall>i. id_imp (f i) = id_imp i \<and> chatHistory (f i) = chatHistory i)"
  proof (cases "k < length (analysing a)")
    case False
    then have "importers (analysisReturns k st rest now a) = map (\<lambda>i. i) (importers a)"
      by (simp add: analysisReturns_def)
    then show ?thesis by blast
  next
    case True
    let ?f = "\<lambda>imp. if id_imp imp = analysing a ! k
                then Importer.more_update rest (imp\<lparr> status_imp := st \<rparr>) else imp"
    have "importers (analysisReturns k st rest now a) = map ?f (importers a)"
      using True by (simp add: analysisReturns_def updateImporter_def)
    moreover have "\<forall>i. id_imp (?f i) = id_imp i \<and> chatHistory (?f i) = chatHistory i"
      by simp
    ultimately show ?thesis by blast
  qed
qed

subsection \<open>How the stages constrain a message\<close>

lemma fits_mono:
  "fits W D R m \<Longrightarrow> W' \<subseteq> W \<Longrightarrow> D' \<subseteq> D \<Longrightarrow> R' \<subseteq> R \<Longrightarrow> fits W' D' R' m"
  by (auto simp: fits_def)

lemma fits_absent: "id_msg m \<notin> W \<Longrightarrow> id_msg m \<notin> D \<Longrightarrow> id_msg m \<notin> R \<Longrightarrow> fits W D R m"
  by (simp add: fits_def)

lemma fits_sending: "status_msg m = Some SENDING \<Longrightarrow> fits W D R m"
  by (simp add: fits_def)

lemma stamp_cases: "stamp l x st m = m \<or> (id_msg m = x \<and> stamp l x st m = m\<lparr> status_msg := Some st \<rparr>)"
  by (simp add: stamp_def)

lemma id_stamp [simp]: "id_msg (stamp l x st m) = id_msg m"
  by (simp add: stamp_def)


subsection \<open>Each operation keeps the stages and moves no status backwards\<close>

lemma step_begin:
  assumes st: "staged a"
      and fr: "toString now \<notin> set (inFlight a)" "toString now \<notin> id_msg ` set (allMessages (importers a))"
  shows "staged (sendMessage_begin imp c ch now a)
       \<and> store_step (importers a) (importers (sendMessage_begin imp c ch now a))"
proof -
  let ?a' = "sendMessage_begin imp c ch now a"
  let ?x = "fst (addMessage (id_imp imp) c agent (Some ch) (Some SENDING) now (importers a))"
  let ?W = "set (map p_msg (awaiting a))" and ?D = "set (deliveryIds (timers (svc a)))"
  and ?R = "set (readIds (timers (svc a)))"
  from addMessage_view(3)[of "id_imp imp" c agent "Some ch" "Some SENDING" now "importers a"]
  obtain f where f: "importers ?a' = map f (importers a)"
    and fi: "\<forall>i\<in>set (importers a). id_imp (f i) = id_imp i \<and>
             (chatHistory (f i) = chatHistory i \<or> chatHistory (f i) = chatHistory i @ [?x])"
    unfolding begin_view(4) by blast
  have ss: "store_step (importers a) (importers ?a')"
    and sub: "set (allMessages (importers ?a')) \<subseteq> insert ?x (set (allMessages (importers a)))"
    unfolding f using extended_store[OF fi] by blast+
  have x: "id_msg ?x = toString now" "status_msg ?x = Some SENDING"
    by (simp_all add: addMessage_view)
  have fl: "inFlight ?a' = map p_msg (awaiting a) @ [toString now] @
               deliveryIds (timers (svc a)) @ readIds (timers (svc a))"
    by (simp add: inFlight_def begin_view)
  have d: "distinct (inFlight ?a')"
    using st fr(1) unfolding fl by (auto simp: staged_def inFlight_def)
  have n: "\<forall>t\<in>set (inFlight ?a'). \<exists>n. t = toString n"
    using st unfolding fl by (auto simp: staged_def inFlight_def)
  have "fits (set (map p_msg (awaiting ?a'))) (set (deliveryIds (timers (svc ?a'))))
             (set (readIds (timers (svc ?a')))) m"
    if m: "m \<in> set (allMessages (importers ?a'))" for m
  proof (cases "m = ?x")
    case True
    then show ?thesis using x(2) by (simp add: fits_sending)
  next
    case False
    with m sub have old: "m \<in> set (allMessages (importers a))" by auto
    then have "fits ?W ?D ?R m" using st by (simp add: staged_def)
    moreover have "id_msg m \<noteq> toString now" using old fr(2) by (metis image_eqI)
    ultimately show ?thesis by (auto simp: fits_def begin_view)
  qed
  with d n ss show ?thesis by (simp add: staged_def)
qed

lemma step_resume:
  assumes st: "staged a"
  shows "staged (sendMessage_resume k r now a)
       \<and> store_step (importers a) (importers (sendMessage_resume k r now a))"
proof (cases "k < length (awaiting a)")
  case False
  then show ?thesis using st by (simp add: sendMessage_resume_def)
next
  case k: True
  let ?p = "awaiting a ! k" and ?A = "take k (awaiting a)" and ?B = "drop (Suc k) (awaiting a)"
  let ?x = "p_msg ?p"
  let ?Ds = "deliveryIds (timers (svc a))" and ?Rs = "readIds (timers (svc a))"
  let ?W = "set (map p_msg (awaiting a))"
  have aw: "awaiting a = ?A @ ?p # ?B" using k by (simp add: id_take_nth_drop)
  then have "map p_msg (awaiting a) = map p_msg ?A @ ?x # map p_msg ?B"
    by (metis list.simps(9) map_append)
  then have fl: "inFlight a = map p_msg ?A @ ?x # map p_msg ?B @ ?Ds @ ?Rs"
    by (simp add: inFlight_def)
  have dist: "distinct (map p_msg ?A @ ?x # map p_msg ?B @ ?Ds @ ?Rs)"
    using st unfolding staged_def fl by simp
  then have xn: "?x \<notin> set (map p_msg ?A)" "?x \<notin> set (map p_msg ?B)" "?x \<notin> set ?Ds" "?x \<notin> set ?Rs"
    by auto
  have xW: "?x \<in> ?W" using k by simp
  have W': "set (map p_msg (?A @ ?B)) \<subseteq> ?W"
    using set_take_subset[of k "awaiting a"] set_drop_subset[of "Suc k" "awaiting a"] by auto
  have dec: "\<forall>t\<in>set (inFlight a). \<exists>n. t = toString n" using st by (simp add: staged_def)
  have old: "fits ?W (set ?Ds) (set ?Rs) m" if "m \<in> set (allMessages (importers a))" for m
    using st that by (simp add: staged_def)
  have sending: "status_msg m = Some SENDING"
    if "m \<in> set (allMessages (importers a))" "id_msg m = ?x" for m
    using old[OF that(1)] that(2) xW by (simp add: fits_def)
  show ?thesis
  proof (cases "r > 98 / 100")
    case rej: True
    let ?a' = "sendMessage_resume k r now a"
    let ?f = "\<lambda>i. if id_imp i = p_importer ?p
               then i\<lparr> chatHistory := map (stamp (Some 0) ?x FAILED) (chatHistory i) \<rparr> else i"
    have lam: "(\<lambda>m. if id_msg m = ?x then m\<lparr> status_msg := Some FAILED \<rparr> else m) = stamp (Some 0) ?x FAILED"
      by (rule ext) (simp add: stamp_def)
    note v = resume_rejected[OF rej k, of now, unfolded lam]
    have imp: "importers ?a' = map ?f (importers a)"
      and aw': "awaiting ?a' = ?A @ ?B" and sv: "svc ?a' = svc a"
      unfolding v by simp_all
    have fi: "\<forall>i\<in>set (importers a). id_imp (?f i) = id_imp i \<and>
             (chatHistory (?f i) = chatHistory i \<or>
              chatHistory (?f i) = map (stamp (Some 0) ?x FAILED) (chatHistory i))"
      by simp
    have adv: "\<forall>m\<in>set (allMessages (importers a)). Some (0::nat) \<noteq> None \<longrightarrow> id_msg m = ?x \<longrightarrow>
                  advances (status_msg m) (Some FAILED)"
      using sending by simp
    have ss: "store_step (importers a) (importers ?a')"
      and sub: "set (allMessages (importers ?a')) \<subseteq>
                  set (allMessages (importers a)) \<union> stamp (Some 0) ?x FAILED ` set (allMessages (importers a))"
      unfolding imp using stamped_store[OF fi adv] by blast+
    have fl': "inFlight ?a' = map p_msg ?A @ map p_msg ?B @ ?Ds @ ?Rs"
      by (simp add: inFlight_def aw' sv)
    have d: "distinct (inFlight ?a')" using dist unfolding fl' by simp
    have n: "\<forall>t\<in>set (inFlight ?a'). \<exists>n. t = toString n"
      using dec unfolding fl fl' by auto
    have "fits (set (map p_msg (awaiting ?a'))) (set (deliveryIds (timers (svc ?a'))))
             (set (readIds (timers (svc ?a')))) m'"
      if m': "m' \<in> set (allMessages (importers ?a'))" for m'
    proof -
      from m' sub obtain m where m: "m \<in> set (allMessages (importers a))"
        and c: "m' = m \<or> m' = stamp (Some 0) ?x FAILED m" by auto
      show ?thesis
      proof (cases "id_msg m = ?x")
        case True
        then have "id_msg m' = ?x" using c by auto
        then show ?thesis unfolding aw' sv using xn by (intro fits_absent) auto
      next
        case False
        then have "m' = m" using c by (auto simp: stamp_def)
        then have "fits (set (map p_msg (?A @ ?B))) (set ?Ds) (set ?Rs) m'"
          using fits_mono[OF old[OF m] W' subset_refl subset_refl] by blast
        then show ?thesis unfolding aw' sv .
      qed
    qed
    with d n ss show ?thesis by (simp add: staged_def)
  next
    case acc: False
    let ?a' = "sendMessage_resume k r now a"
    let ?l = "statusListener (svc a)"
    let ?f = "\<lambda>imp. imp\<lparr> chatHistory := map (stamp ?l ?x SENT) (chatHistory imp) \<rparr>"
    note v = resume_accepted[OF acc k, of now]
    have imp: "importers ?a' = map ?f (importers a)"
      and aw': "awaiting ?a' = ?A @ ?B"
      and tm: "timers (svc ?a') = timers (svc a) @ [(deliveryDelay (p_channel ?p), Delivery ?x)]"
      unfolding v by (simp_all add: setTimeout_def emitStatus_def)
    have fi: "\<forall>i\<in>set (importers a). id_imp (?f i) = id_imp i \<and>
             (chatHistory (?f i) = chatHistory i \<or>
              chatHistory (?f i) = map (stamp ?l ?x SENT) (chatHistory i))"
      by simp
    have adv: "\<forall>m\<in>set (allMessages (importers a)). ?l \<noteq> None \<longrightarrow> id_msg m = ?x \<longrightarrow>
                  advances (status_msg m) (Some SENT)"
      using sending by simp
    have ss: "store_step (importers a) (importers ?a')"
      and sub: "set (allMessages (importers ?a')) \<subseteq>
                  set (allMessages (importers a)) \<union> stamp ?l ?x SENT ` set (allMessages (importers a))"
      unfolding imp using stamped_store[OF fi adv] by blast+
    have fl': "inFlight ?a' = map p_msg ?A @ map p_msg ?B @ (?Ds @ [?x]) @ ?Rs"
      by (simp add: inFlight_def aw' tm)
    have d: "distinct (inFlight ?a')" using dist unfolding fl' by auto
    have n: "\<forall>t\<in>set (inFlight ?a'). \<exists>n. t = toString n"
      using dec unfolding fl fl' by auto
    have "fits (set (map p_msg (awaiting ?a'))) (set (deliveryIds (timers (svc ?a'))))
             (set (readIds (timers (svc ?a')))) m'"
      if m': "m' \<in> set (allMessages (importers ?a'))" for m'
    proof -
      from m' sub obtain m where m: "m \<in> set (allMessages (importers a))"
        and c: "m' = m \<or> m' = stamp ?l ?x SENT m" by auto
      show ?thesis
      proof (cases "id_msg m = ?x")
        case True
        then have "id_msg m' = ?x" using c by auto
        moreover have "status_msg m' = Some SENDING \<or> status_msg m' = Some SENT"
          using c sending[OF m True] by (auto simp: stamp_def)
        ultimately show ?thesis unfolding aw' tm using xn by (auto simp: fits_def)
      next
        case False
        then have "m' = m" using c by (auto simp: stamp_def)
        then show ?thesis unfolding aw' tm using old[OF m] W' False by (auto simp: fits_def)
      qed
    qed
    with d n ss show ?thesis by (simp add: staged_def)
  qed
qed

lemma ids_split:
  assumes "k < length ts"
  shows "deliveryIds ts = deliveryIds (take k ts) @ deliveryIds [ts ! k] @ deliveryIds (drop (Suc k) ts)"
    and "readIds ts = readIds (take k ts) @ readIds [ts ! k] @ readIds (drop (Suc k) ts)"
proof -
  have "ts = take k ts @ [ts ! k] @ drop (Suc k) ts"
    using assms by (simp add: id_take_nth_drop)
  then have "deliveryIds ts = deliveryIds (take k ts @ [ts ! k] @ drop (Suc k) ts)"
    and "readIds ts = readIds (take k ts @ [ts ! k] @ drop (Suc k) ts)"
    by simp_all
  then show "deliveryIds ts = deliveryIds (take k ts) @ deliveryIds [ts ! k] @ deliveryIds (drop (Suc k) ts)"
    and "readIds ts = readIds (take k ts) @ readIds [ts ! k] @ readIds (drop (Suc k) ts)"
    by (simp_all only: deliveryIds_append readIds_append)
qed

lemma step_fire:
  assumes st: "staged a" and adm: "replyAt k a \<longrightarrow> freshId now a"
  shows "staged (timerFires k r2 r3 now a)
       \<and> store_step (importers a) (importers (timerFires k r2 r3 now a))"
proof (cases "k < length (timers (svc a))")
  case False
  then show ?thesis using st by (simp add: timerFires_idle)
next
  case k: True
  let ?a' = "timerFires k r2 r3 now a"
  let ?A = "take k (timers (svc a))" and ?B = "drop (Suc k) (timers (svc a))"
  let ?Wl = "map p_msg (awaiting a)"
  let ?l = "statusListener (svc a)"
  obtain d t where dt: "timers (svc a) ! k = (d, t)" by (cases "timers (svc a) ! k")
  have tm: "timers (svc a) = ?A @ (d, t) # ?B"
    using k dt by (metis id_take_nth_drop)
  have Ds: "deliveryIds (timers (svc a)) = deliveryIds ?A @ deliveryIds [(d, t)] @ deliveryIds ?B"
    and Rs: "readIds (timers (svc a)) = readIds ?A @ readIds [(d, t)] @ readIds ?B"
    using ids_split[OF k] by (simp_all add: dt)
  have dist: "distinct (?Wl @ deliveryIds (timers (svc a)) @ readIds (timers (svc a)))"
    and dec: "\<forall>t\<in>set (?Wl @ deliveryIds (timers (svc a)) @ readIds (timers (svc a))). \<exists>n. t = toString n"
    using st by (simp_all add: staged_def inFlight_def)
  have old: "fits (set ?Wl) (set (deliveryIds (timers (svc a)))) (set (readIds (timers (svc a)))) m"
    if "m \<in> set (allMessages (importers a))" for m
    using st that by (simp add: staged_def)
  show ?thesis
  proof (cases t)
    case (Delivery x)
    note v = timerFires_delivery[OF k dt[unfolded Delivery], of r2 r3 now]
    let ?f = "\<lambda>imp. imp\<lparr> chatHistory := map (stamp ?l x DELIVERED) (chatHistory imp) \<rparr>"
    let ?extra = "if r2 > 3 / 10 then [x] else []"
    have D: "deliveryIds (timers (svc a)) = deliveryIds ?A @ x # deliveryIds ?B"
      and R: "readIds (timers (svc a)) = readIds ?A @ readIds ?B"
      using Ds Rs Delivery by simp_all
    have D': "deliveryIds (timers (svc ?a')) = deliveryIds ?A @ deliveryIds ?B"
      and R': "readIds (timers (svc ?a')) = readIds ?A @ readIds ?B @ ?extra"
      unfolding v by simp_all
    have xn: "x \<notin> set ?Wl" "x \<notin> set (deliveryIds ?A)" "x \<notin> set (deliveryIds ?B)"
      "x \<notin> set (readIds ?A)" "x \<notin> set (readIds ?B)"
      using dist unfolding D R by auto
    have cur: "status_msg m = Some SENDING \<or> status_msg m = Some SENT"
      if "m \<in> set (allMessages (importers a))" "id_msg m = x" for m
      using old[OF that(1)] that(2) unfolding D by (simp add: fits_def)
    have fi: "\<forall>i\<in>set (importers a). id_imp (?f i) = id_imp i \<and>
             (chatHistory (?f i) = chatHistory i \<or>
              chatHistory (?f i) = map (stamp ?l x DELIVERED) (chatHistory i))"
      by simp
    have adv: "\<forall>m\<in>set (allMessages (importers a)). ?l \<noteq> None \<longrightarrow> id_msg m = x \<longrightarrow>
                  advances (status_msg m) (Some DELIVERED)"
    proof (intro ballI impI)
      fix m assume "m \<in> set (allMessages (importers a))" "id_msg m = x"
      from cur[OF this] show "advances (status_msg m) (Some DELIVERED)" by auto
    qed
    have ss: "store_step (importers a) (importers ?a')"
      and sub: "set (allMessages (importers ?a')) \<subseteq>
                  set (allMessages (importers a)) \<union> stamp ?l x DELIVERED ` set (allMessages (importers a))"
      unfolding v(1) using stamped_store[OF fi adv] by blast+
    have fl': "inFlight ?a' = ?Wl @ (deliveryIds ?A @ deliveryIds ?B) @ (readIds ?A @ readIds ?B @ ?extra)"
      by (simp add: inFlight_def v(2) D' R')
    have d: "distinct (inFlight ?a')" using dist unfolding fl' D R by auto
    have n: "\<forall>t\<in>set (inFlight ?a'). \<exists>n. t = toString n"
      using dec unfolding fl' D R by auto
    have "fits (set (map p_msg (awaiting ?a'))) (set (deliveryIds (timers (svc ?a'))))
             (set (readIds (timers (svc ?a')))) m'"
      if m': "m' \<in> set (allMessages (importers ?a'))" for m'
    proof -
      from m' sub obtain m where m: "m \<in> set (allMessages (importers a))"
        and c: "m' = m \<or> m' = stamp ?l x DELIVERED m" by auto
      show ?thesis
      proof (cases "id_msg m = x")
        case True
        then have "id_msg m' = x" using c by auto
        moreover have "m' = m \<or> m' = m\<lparr> status_msg := Some DELIVERED \<rparr>"
          using c stamp_cases[of ?l x DELIVERED m] by auto
        then have "status_msg m' = Some SENDING \<or> status_msg m' = Some SENT
            \<or> status_msg m' = Some DELIVERED"
          using cur[OF m True] by auto
        ultimately show ?thesis unfolding v(2) D' R' using xn by (auto simp: fits_def)
      next
        case False
        then have "m' = m" using c by (auto simp: stamp_def)
        then show ?thesis unfolding v(2) D' R' using old[OF m] False
          unfolding D R by (auto simp: fits_def)
      qed
    qed
    with d n ss show ?thesis by (simp add: staged_def)
  next
    case (ReadReceipt x)
    note v = timerFires_read[OF k dt[unfolded ReadReceipt], of r2 r3 now]
    let ?f = "\<lambda>imp. imp\<lparr> chatHistory := map (stamp ?l x READ) (chatHistory imp) \<rparr>"
    have D: "deliveryIds (timers (svc a)) = deliveryIds ?A @ deliveryIds ?B"
      and R: "readIds (timers (svc a)) = readIds ?A @ x # readIds ?B"
      using Ds Rs ReadReceipt by simp_all
    have D': "deliveryIds (timers (svc ?a')) = deliveryIds ?A @ deliveryIds ?B"
      and R': "readIds (timers (svc ?a')) = readIds ?A @ readIds ?B"
      unfolding v by simp_all
    have xn: "x \<notin> set ?Wl" "x \<notin> set (deliveryIds ?A)" "x \<notin> set (deliveryIds ?B)"
      "x \<notin> set (readIds ?A)" "x \<notin> set (readIds ?B)"
      using dist unfolding D R by auto
    have cur: "status_msg m = Some SENDING \<or> status_msg m = Some SENT \<or> status_msg m = Some DELIVERED"
      if "m \<in> set (allMessages (importers a))" "id_msg m = x" for m
      using old[OF that(1)] that(2) unfolding R by (simp add: fits_def)
    have fi: "\<forall>i\<in>set (importers a). id_imp (?f i) = id_imp i \<and>
             (chatHistory (?f i) = chatHistory i \<or>
              chatHistory (?f i) = map (stamp ?l x READ) (chatHistory i))"
      by simp
    have adv: "\<forall>m\<in>set (allMessages (importers a)). ?l \<noteq> None \<longrightarrow> id_msg m = x \<longrightarrow>
                  advances (status_msg m) (Some READ)"
    proof (intro ballI impI)
      fix m assume "m \<in> set (allMessages (importers a))" "id_msg m = x"
      from cur[OF this] show "advances (status_msg m) (Some READ)" by auto
    qed
    have ss: "store_step (importers a) (importers ?a')"
      and sub: "set (allMessages (importers ?a')) \<subseteq>
                  set (allMessages (importers a)) \<union> stamp ?l x READ ` set (allMessages (importers a))"
      unfolding v(1) using stamped_store[OF fi adv] by blast+
    have fl': "inFlight ?a' = ?Wl @ (deliveryIds ?A @ deliveryIds ?B) @ (readIds ?A @ readIds ?B)"
      by (simp add: inFlight_def v(2) D' R')
    have d: "distinct (inFlight ?a')" using dist unfolding fl' D R by auto
    have n: "\<forall>t\<in>set (inFlight ?a'). \<exists>n. t = toString n"
      using dec unfolding fl' D R by auto
    have "fits (set (map p_msg (awaiting ?a'))) (set (deliveryIds (timers (svc ?a'))))
             (set (readIds (timers (svc ?a')))) m'"
      if m': "m' \<in> set (allMessages (importers ?a'))" for m'
    proof -
      from m' sub obtain m where m: "m \<in> set (allMessages (importers a))"
        and c: "m' = m \<or> m' = stamp ?l x READ m" by auto
      show ?thesis
      proof (cases "id_msg m = x")
        case True
        then have "id_msg m' = x" using c by auto
        then show ?thesis unfolding v(2) D' R' using xn by (intro fits_absent) auto
      next
        case False
        then have "m' = m" using c by (auto simp: stamp_def)
        then show ?thesis unfolding v(2) D' R' using old[OF m] False
          unfolding D R by (auto simp: fits_def)
      qed
    qed
    with d n ss show ?thesis by (simp add: staged_def)
  next
    case (Reply i c ch)
    note v = timerFires_reply[OF k dt[unfolded Reply], of r2 r3 now]
    from v(1) obtain f x where f: "importers ?a' = map f (importers a)"
      and x: "id_msg x = toString now"
      and fi: "\<forall>j\<in>set (importers a). id_imp (f j) = id_imp j \<and>
                (chatHistory (f j) = chatHistory j \<or> chatHistory (f j) = chatHistory j @ [x])"
      by blast
    have ss: "store_step (importers a) (importers ?a')"
      and sub: "set (allMessages (importers ?a')) \<subseteq> insert x (set (allMessages (importers a)))"
      unfolding f using extended_store[OF fi] by blast+
    have D: "deliveryIds (timers (svc a)) = deliveryIds ?A @ deliveryIds ?B"
      and R: "readIds (timers (svc a)) = readIds ?A @ readIds ?B"
      using Ds Rs Reply by simp_all
    have D': "deliveryIds (timers (svc ?a')) = deliveryIds (timers (svc a))"
      and R': "readIds (timers (svc ?a')) = readIds (timers (svc a))"
      unfolding v D R by simp_all
    have fl: "inFlight ?a' = inFlight a"
      by (simp add: inFlight_def v(2) D' R')
    have "replyAt k a" using k dt Reply by (simp add: replyAt_def)
    with adm have fr: "toString now \<notin> set (inFlight a)" by (simp add: freshId_def)
    have "fits (set (map p_msg (awaiting ?a'))) (set (deliveryIds (timers (svc ?a'))))
             (set (readIds (timers (svc ?a')))) m"
      if m: "m \<in> set (allMessages (importers ?a'))" for m
    proof (cases "m = x")
      case True
      then show ?thesis unfolding v(2) D' R' using fr x
        by (intro fits_absent) (auto simp: inFlight_def)
    next
      case False
      with m sub have "m \<in> set (allMessages (importers a))" by auto
      then show ?thesis unfolding v(2) D' R' by (rule old)
    qed
    then show ?thesis using st ss fl by (simp add: staged_def)
  qed
qed

lemma step_mock:
  assumes st: "staged a"
  shows "staged (mockReply i c ch now a)
       \<and> store_step (importers a) (importers (mockReply i c ch now a))"
proof -
  note v = mockReply_view[of i c ch now a]
  have "inFlight (mockReply i c ch now a) = inFlight a"
    by (simp add: inFlight_def v)
  then show ?thesis using st by (simp add: staged_def v)
qed

lemma step_analysis:
  assumes st: "staged a"
  shows "staged (analysisReturns k s rest now a)
       \<and> store_step (importers a) (importers (analysisReturns k s rest now a))"
proof -
  let ?a' = "analysisReturns k s rest now a"
  note v = analysisReturns_view[of k s rest now a]
  from v(3) obtain f where f: "importers ?a' = map f (importers a)"
    and fi: "\<forall>i\<in>set (importers a). id_imp (f i) = id_imp i \<and>
              (chatHistory (f i) = chatHistory i \<or> chatHistory (f i) = chatHistory i @ [undefined])"
    and same: "\<forall>i. chatHistory (f i) = chatHistory i"
    by auto
  have ss: "store_step (importers a) (importers ?a')"
    unfolding f using extended_store(1)[OF fi] .
  have "set (allMessages (importers ?a')) = set (allMessages (importers a))"
    unfolding f allMessages_map using same by (simp add: allMessages_def)
  moreover have "inFlight ?a' = inFlight a"
    by (simp add: inFlight_def v)
  ultimately show ?thesis using st ss by (simp add: staged_def v)
qed

lemma step_webhook:
  assumes st: "staged a" and r: "webhookReceived ch payload ts now a = Inr a'"
  shows "staged a' \<and> store_step (importers a) (importers a')"
proof -
  from r obtain stop new where o: "onWebhookPayload ch payload ts now (importers a) = Inr (stop, new)"
    and a': "a' = a\<lparr> importers := new,
                     stopEnrollment := stopEnrollment a @ (case stop of None \<Rightarrow> [] | Some i \<Rightarrow> [i]) \<rparr>"
    by (auto simp: webhookReceived_def split: sum.splits prod.splits)
  from onWebhookPayload_view[OF o] obtain f c where f: "new = map f (importers a)"
    and fi: "\<forall>i\<in>set (importers a). id_imp (f i) = id_imp i \<and>
            (chatHistory (f i) = chatHistory i \<or>
             chatHistory (f i) = chatHistory i @ [webhookMessage ch c ts now])"
    by blast
  have ss: "store_step (importers a) new"
    and sub: "set (allMessages new) \<subseteq> insert (webhookMessage ch c ts now) (set (allMessages (importers a)))"
    unfolding f using extended_store[OF fi] by blast+
  have fl: "inFlight a' = inFlight a" by (simp add: a' inFlight_def)
  have wid: "id_msg (webhookMessage ch c ts now) \<notin> set (inFlight a)"
  proof
    assume "id_msg (webhookMessage ch c ts now) \<in> set (inFlight a)"
    then obtain n where "id_msg (webhookMessage ch c ts now) = toString n"
      using st by (auto simp: staged_def)
    then show False using toString_not_wh[of n "toString now"] by (simp add: webhookMessage_def)
  qed
  have "fits (set (map p_msg (awaiting a'))) (set (deliveryIds (timers (svc a'))))
             (set (readIds (timers (svc a')))) m"
    if m: "m \<in> set (allMessages (importers a'))" for m
  proof (cases "m = webhookMessage ch c ts now")
    case True
    then show ?thesis using wid by (intro fits_absent) (auto simp: a' inFlight_def)
  next
    case False
    with m sub have "m \<in> set (allMessages (importers a))" by (auto simp: a')
    then show ?thesis using st by (simp add: staged_def a')
  qed
  then show ?thesis using st ss fl by (simp add: staged_def a')
qed


lemma step_any:
  assumes "staged a" and "admissible x a"
  shows "staged (app_step x a) \<and> store_step (importers a) (importers (app_step x a))"
proof (cases x)
  case (BeginSend imp c ch now)
  then show ?thesis using assms step_begin[of a now imp c ch] by (simp add: freshId_def)
next
  case (ResumeSend k r now)
  then show ?thesis using assms(1) step_resume[of a k r now] by simp
next
  case (TimerFires k r2 r3 now)
  then show ?thesis using assms step_fire[of a k now r2 r3] by simp
next
  case (Webhook ch payload ts now)
  show ?thesis
  proof (cases "webhookReceived ch payload ts now a")
    case (Inl e)
    then show ?thesis using assms(1) Webhook by simp
  next
    case (Inr a')
    then show ?thesis using assms(1) Webhook step_webhook[of a ch payload ts now a'] by simp
  qed
next
  case (MockReply i c ch now)
  then show ?thesis using assms(1) step_mock[of a i c ch now] by simp
next
  case (AnalysisReturns k s rest now)
  then show ?thesis using assms(1) step_analysis[of a k s rest now] by simp
next
  case (Select i)
  then show ?thesis using assms(1) by (simp add: staged_def inFlight_def)
qed

lemma stores_hd: "stores acts a = importers a # tl (stores acts a)"
  by (cases acts) simp_all

lemma staged_quiet: "inFlight a = [] \<Longrightarrow> staged a"
  by (simp add: staged_def inFlight_def fits_def)

lemma staged_run:
  assumes "staged a" and "admissible_run acts a"
  shows "successively store_step (stores acts a)"
  using assms
proof (induction acts arbitrary: a)
  case Nil
  then show ?case by simp
next
  case (Cons x xs)
  from Cons.prems have s: "staged (app_step x a)"
    and t: "store_step (importers a) (importers (app_step x a))"
    using step_any[of a x] by simp_all
  from Cons.prems s have "successively store_step (stores xs (app_step x a))"
    by (intro Cons.IH) simp_all
  with t show ?case
    by (subst (asm) stores_hd, subst stores.simps, subst stores_hd) simp
qed

text \<open>
  Claim C9, as stated, fails when two messages get the same id. A send to a lead begins
  twice within one millisecond, so both stored messages are named 7. The first call is
  rejected and both go from SENDING to FAILED, being the messages with that id in that
  lead; the second is accepted, the handler sets every message with the id to SENT, and
  both go from FAILED to SENT.
\<close>

theorem shared_id_counterexample:
  "map (map (\<lambda>i. map (\<lambda>m. (id_msg m, status_msg m)) (chatHistory i))) (stores
        [BeginSend (bareLead ''1'' ''wx_123'') ''hello'' WECHAT 7,
         BeginSend (bareLead ''1'' ''wx_123'') ''again'' WECHAT 7,
         ResumeSend 0 (99 / 100) 607, ResumeSend 0 (1 / 2) 607]
        (shell (onMessageStatusUpdate 1 idle) [bareLead ''1'' ''wx_123''])) =
      [[[]],
       [[(''7'', Some SENDING)]],
       [[(''7'', Some SENDING), (''7'', Some SENDING)]],
       [[(''7'', Some FAILED), (''7'', Some FAILED)]],
       [[(''7'', Some SENT), (''7'', Some SENT)]]]
   \<and> \<not> advances (Some FAILED) (Some SENT)
   \<and> \<not> successively store_step (stores
        [BeginSend (bareLead ''1'' ''wx_123'') ''hello'' WECHAT 7,
         BeginSend (bareLead ''1'' ''wx_123'') ''again'' WECHAT 7,
         ResumeSend 0 (99 / 100) 607, ResumeSend 0 (1 / 2) 607]
        (shell (onMessageStatusUpdate 1 idle) [bareLead ''1'' ''wx_123'']))"
  by (simp add: shell_def bareLead_def idle_def onMessageStatusUpdate_def
      sendMessage_begin_def sendMessage_resume_def sendMessage_def
      addMessage_def emitStatus_def setTimeout_def deliver_def Let_def statusUpdateHandler_def
      toString.simps digit_def deliveryDelay_def store_step_def history_step_def msg_step_def)

text \<open>
  Claim C9, amended. Start the shell with no send in flight, on any store, and let it
  run: sends of the shell begin and resume, accepted or rejected; timers fire in any
  order; webhook payloads and mock replies arrive, their analyses return, the selection
  changes. Provided every new message is named by an id that is neither in flight nor
  stored at that moment, from each store of the run to the next every lead and every
  stored message stays in its place, and the status of a stored message stays as it is
  or moves forward in the order SENDING, SENT, DELIVERED, READ, or goes from SENDING to
  FAILED: no write moves a status backwards, and FAILED is written over SENDING only.
\<close>

theorem status_never_regresses:
  assumes "inFlight a = []" and "admissible_run acts a"
  shows "successively store_step (stores acts a)"
  using assms staged_quiet staged_run by blast

theorem status_never_regresses_witness:
  "inFlight (shell (onIncomingMessage 1 (onMessageStatusUpdate 1 idle)) [bareLead ''1'' ''wx_123'']) = []
   \<and> admissible_run
        [BeginSend (bareLead ''1'' ''wx_123'') ''hello'' WECHAT 7, ResumeSend 0 (1 / 2) 607,
         BeginSend (bareLead ''1'' ''wx_123'') ''again'' EMAIL 8,
         TimerFires 0 (1 / 2) 0 1607, Webhook ''WeChat'' (wechatPayload ''ok'' ''wx_123'') None 9,
         ResumeSend 0 (99 / 100) 1508, MockReply ''1'' ''yes'' WECHAT 10,
         TimerFires 1 0 0 11, TimerFires 0 0 0 12]
        (shell (onIncomingMessage 1 (onMessageStatusUpdate 1 idle)) [bareLead ''1'' ''wx_123''])
   \<and> successively store_step (stores
        [BeginSend (bareLead ''1'' ''wx_123'') ''hello'' WECHAT 7, ResumeSend 0 (1 / 2) 607,
         BeginSend (bareLead ''1'' ''wx_123'') ''again'' EMAIL 8,
         TimerFires 0 (1 / 2) 0 1607, Webhook ''WeChat'' (wechatPayload ''ok'' ''wx_123'') None 9,
         ResumeSend 0 (99 / 100) 1508, MockReply ''1'' ''yes'' WECHAT 10,
         TimerFires 1 0 0 11, TimerFires 0 0 0 12]
        (shell (onIncomingMessage 1 (onMessageStatusUpdate 1 idle)) [bareLead ''1'' ''wx_123'']))
   \<and> map (map (\<lambda>i. map (\<lambda>m. (id_msg m, status_msg m)) (chatHistory i))) (stores
        [BeginSend (bareLead ''1'' ''wx_123'') ''hello'' WECHAT 7, ResumeSend 0 (1 / 2) 607,
         BeginSend (bareLead ''1'' ''wx_123'') ''again'' EMAIL 8,
         TimerFires 0 (1 / 2) 0 1607, Webhook ''WeChat'' (wechatPayload ''ok'' ''wx_123'') None 9,
         ResumeSend 0 (99 / 100) 1508, MockReply ''1'' ''yes'' WECHAT 10,
         TimerFires 1 0 0 11, TimerFires 0 0 0 12]
        (shell (onIncomingMessage 1 (onMessageStatusUpdate 1 idle)) [bareLead ''1'' ''wx_123''])) =
      [[[]],
       [[(''7'', Some SENDING)]],
       [[(''7'', Some SENT)]],
       [[(''7'', Some SENT), (''8'', Some SENDING)]],
       [[(''7'', Some DELIVERED), (''8'', Some SENDING)]],
       [[(''7'', Some DELIVERED), (''8'', Some SENDING), (''wh-9'', Some DELIVERED)]],
       [[(''7'', Some DELIVERED), (''8'', Some FAILED), (''wh-9'', Some DELIVERED)]],
       [[(''7'', Some DELIVERED), (''8'', Some FAILED), (''wh-9'', Some DELIVERED)]],
       [[(''7'', Some DELIVERED), (''8'', Some FAILED), (''wh-9'', Some DELIVERED), (''11'', None)]],
       [[(''7'', Some READ), (''8'', Some FAILED), (''wh-9'', Some DELIVERED), (''11'', None)]]]"
proof -
  note defs = shell_def bareLead_def idle_def onMessageStatusUpdate_def onIncomingMessage_def
    inFlight_def allMessages_def freshId_def replyAt_def
    sendMessage_begin_def sendMessage_resume_def timerFires_def fire_def sendMessage_def
    addMessage_def emitStatus_def emitTyping_def emitIncoming_def setTimeout_def deliver_def Let_def
    statusUpdateHandler_def mockReply_def receiveMockReply_def incomingHandler_def nonEmpty_def
    toString.simps digit_def webhookReceived_def onWebhookPayload_def webhookUpdate_def
    matches_def withInbound_def webhookMessage_def webhookLog_def deliveryDelay_def
  have q: "inFlight (shell (onIncomingMessage 1 (onMessageStatusUpdate 1 idle)) [bareLead ''1'' ''wx_123'']) = []"
    by (simp add: defs)
  have r: "admissible_run
        [BeginSend (bareLead ''1'' ''wx_123'') ''hello'' WECHAT 7, ResumeSend 0 (1 / 2) 607,
         BeginSend (bareLead ''1'' ''wx_123'') ''again'' EMAIL 8,
         TimerFires 0 (1 / 2) 0 1607, Webhook ''WeChat'' (wechatPayload ''ok'' ''wx_123'') None 9,
         ResumeSend 0 (99 / 100) 1508, MockReply ''1'' ''yes'' WECHAT 10,
         TimerFires 1 0 0 11, TimerFires 0 0 0 12]
        (shell (onIncomingMessage 1 (onMessageStatusUpdate 1 idle)) [bareLead ''1'' ''wx_123''])"
    by (simp add: defs)
  have v: "map (map (\<lambda>i. map (\<lambda>m. (id_msg m, status_msg m)) (chatHistory i))) (stores
        [BeginSend (bareLead ''1'' ''wx_123'') ''hello'' WECHAT 7, ResumeSend 0 (1 / 2) 607,
         BeginSend (bareLead ''1'' ''wx_123'') ''again'' EMAIL 8,
         TimerFires 0 (1 / 2) 0 1607, Webhook ''WeChat'' (wechatPayload ''ok'' ''wx_123'') None 9,
         ResumeSend 0 (99 / 100) 1508, MockReply ''1'' ''yes'' WECHAT 10,
         TimerFires 1 0 0 11, TimerFires 0 0 0 12]
        (shell (onIncomingMessage 1 (onMessageStatusUpdate 1 idle)) [bareLead ''1'' ''wx_123''])) =
      [[[]],
       [[(''7'', Some SENDING)]],
       [[(''7'', Some SENT)]],
       [[(''7'', Some SENT), (''8'', Some SENDING)]],
       [[(''7'', Some DELIVERED), (''8'', Some SENDING)]],
       [[(''7'', Some DELIVERED), (''8'', Some SENDING), (''wh-9'', Some DELIVERED)]],
       [[(''7'', Some DELIVERED), (''8'', Some FAILED), (''wh-9'', Some DELIVERED)]],
       [[(''7'', Some DELIVERED), (''8'', Some FAILED), (''wh-9'', Some DELIVERED)]],
       [[(''7'', Some DELIVERED), (''8'', Some FAILED), (''wh-9'', Some DELIVERED), (''11'', None)]],
       [[(''7'', Some READ), (''8'', Some FAILED), (''wh-9'', Some DELIVERED), (''11'', None)]]]"
    by (simp add: defs)
  from q r v status_never_regresses [OF q r] show ?thesis by blast
qed

end
